theory Spec2Isabelle
  imports Complex_Main
begin

section \<open>killerGraph: doubling algorithms for linear-quadratic control\<close>

text \<open>
  The module \<^verbatim>\<open>killergraphfuncs.py\<close> holds three functions: \<^verbatim>\<open>doublej\<close> (a doubling
  summation), \<^verbatim>\<open>doubleo\<close> (a doubling solver for the Riccati equation of the Kalman filter) and
  \<^verbatim>\<open>olrp\<close> (the optimal linear regulator, built on \<^verbatim>\<open>doubleo\<close>).

  Modelling decisions.
  \<^item> A NumPy array of floats is a list of rows of real numbers; the arithmetic is exact. What is
    verified is the control structure of the three functions (initialisation, update equations,
    loop guards, iteration counting, raised errors), which does not depend on rounding. Every
    concrete input evaluated below uses numbers on which the comparison decided by the program
    is far from its threshold.
  \<^item> The arguments have the shapes the docstrings give (\<open>A\<close> is \<open>n \<times> n\<close>, \<open>B\<close> is \<open>n \<times> k\<close>, ...);
    on such arguments \<^verbatim>\<open>dot\<close>, \<^verbatim>\<open>+\<close>, \<^verbatim>\<open>-\<close> and \<^verbatim>\<open>.T\<close> do not raise and do not broadcast.
  \<^item> \<^verbatim>\<open>scipy.linalg.solve\<close> and \<^verbatim>\<open>scipy.linalg.eig\<close> are library routines outside the module.
    They are parameters of the model (\<open>solve\<close>, \<open>eig\<close>), each returning either an error or a
    value, so that the theorems hold for every solver.
  \<^item> An exception is a value of type \<open>error\<close>; a function that can raise returns \<open>error + 'a\<close>.
  \<^item> The \<^verbatim>\<open>while\<close> loop of \<^verbatim>\<open>doubleo\<close> has no iteration cap. It is a partial function whose
    value \<open>None\<close> means that the loop runs forever.
\<close>

subsection \<open>Errors\<close>

datatype error = ValueError string | LinAlgError string | UnboundLocalError string

definition bindE :: "error + 'a \<Rightarrow> ('a \<Rightarrow> error + 'b) \<Rightarrow> error + 'b" where
  "bindE m f = (case m of Inl e \<Rightarrow> Inl e | Inr x \<Rightarrow> f x)"

subsection \<open>Arrays\<close>

type_synonym matrix = "real list list"

type_synonym solver = "matrix \<Rightarrow> matrix \<Rightarrow> error + matrix"

type_synonym eigsolver = "matrix \<Rightarrow> error + complex list"

text \<open>\<^verbatim>\<open>a.T\<close>\<close>

fun np_T :: "matrix \<Rightarrow> matrix" where
  "np_T [] = []"
| "np_T (r # rs) = (if rs = [] then map (\<lambda>x. [x]) r else map2 (#) r (np_T rs))"

text \<open>\<^verbatim>\<open>a.dot(b)\<close>, \<^verbatim>\<open>np.dot(a, b)\<close>\<close>

definition np_dot :: "matrix \<Rightarrow> matrix \<Rightarrow> matrix" where
  "np_dot a b = map (\<lambda>r. map (\<lambda>c. sum_list (map2 (*) r c)) (np_T b)) a"

text \<open>\<^verbatim>\<open>a + b\<close>, \<^verbatim>\<open>a - b\<close>, \<^verbatim>\<open>c * a\<close> for a scalar \<open>c\<close>, \<^verbatim>\<open>np.abs(a)\<close>\<close>

definition np_add :: "matrix \<Rightarrow> matrix \<Rightarrow> matrix" where
  "np_add a b = map2 (map2 (+)) a b"

definition np_sub :: "matrix \<Rightarrow> matrix \<Rightarrow> matrix" where
  "np_sub a b = map2 (map2 (-)) a b"

definition np_smul :: "real \<Rightarrow> matrix \<Rightarrow> matrix" where
  "np_smul c a = map (map ((*) c)) a"

definition np_abs :: "matrix \<Rightarrow> matrix" where
  "np_abs a = map (map abs) a"

text \<open>\<^verbatim>\<open>np.eye(n)\<close>, \<^verbatim>\<open>np.zeros((r, c))\<close>\<close>

fun np_eye :: "nat \<Rightarrow> matrix" where
  "np_eye 0 = []"
| "np_eye (Suc n) = (1 # replicate n 0) # map ((#) 0) (np_eye n)"

definition np_zeros :: "nat \<Rightarrow> nat \<Rightarrow> matrix" where
  "np_zeros r c = replicate r (replicate c 0)"

text \<open>\<^verbatim>\<open>a.shape\<close> is \<open>(nrows a, ncols a)\<close>.\<close>

definition nrows :: "matrix \<Rightarrow> nat" where
  "nrows a = length a"

definition ncols :: "matrix \<Rightarrow> nat" where
  "ncols a = (case a of [] \<Rightarrow> 0 | r # _ \<Rightarrow> length r)"

text \<open>\<^verbatim>\<open>np.max\<close> raises on an array without entries.\<close>

definition np_max1 :: "real list \<Rightarrow> error + real" where
  "np_max1 xs =
     (case xs of
        [] \<Rightarrow> Inl (ValueError ''zero-size array to reduction operation maximum which has no identity'')
      | y # ys \<Rightarrow> Inr (fold max ys y))"

definition np_max :: "matrix \<Rightarrow> error + real" where
  "np_max a = np_max1 (concat a)"

text \<open>\<^verbatim>\<open>math.sqrt\<close> raises on a negative argument.\<close>

definition py_sqrt :: "real \<Rightarrow> error + real" where
  "py_sqrt x = (if x < 0 then Inl (ValueError ''math domain error'') else Inr (sqrt x))"

text \<open>The decimal numeral of an integer, as \<^verbatim>\<open>%i\<close> and \<^verbatim>\<open>{0}\<close> print it.\<close>

fun digits :: "nat \<Rightarrow> string" where
  "digits n =
     (if n < 10 then [''0123456789'' ! n]
      else digits (n div 10) @ [''0123456789'' ! (n mod 10)])"

definition str_int :: "int \<Rightarrow> string" where
  "str_int i = (if i < 0 then CHR ''-'' # digits (nat (- i)) else digits (nat i))"

subsection \<open>\<^verbatim>\<open>doublej\<close>\<close>

text \<open>
  The local variables of \<^verbatim>\<open>doublej\<close>. \<^verbatim>\<open>gamma1\<close> is bound only inside the loop body, so it is
  optional; \<^verbatim>\<open>alpha1\<close> is never read after the body and is not kept.
\<close>

record dj_state =
  dj_alpha0 :: matrix
  dj_gamma0 :: matrix
  dj_diff :: real
  dj_n_its :: int
  dj_gamma1 :: "matrix option"

definition dj_tol :: real where
  "dj_tol = 1 / 10 ^ 15"

text \<open>
  The \<^verbatim>\<open>while diff > 1e-15\<close> loop (lines 42 to 55). The counter \<^verbatim>\<open>n_its\<close> grows in every pass
  and the loop raises once it is above \<^verbatim>\<open>max_it\<close>, so the loop always ends.
\<close>

function doublej_while :: "int \<Rightarrow> dj_state \<Rightarrow> error + dj_state" where
  "doublej_while max_it s =
     (if dj_diff s > dj_tol then
        (let alpha1 = np_dot (dj_alpha0 s) (dj_alpha0 s);
             gamma1 = np_add (dj_gamma0 s)
                        (np_dot (np_dot (dj_alpha0 s) (dj_gamma0 s)) (np_T (dj_alpha0 s)))
         in case np_max (np_abs (np_sub gamma1 (dj_gamma0 s))) of
              Inl e \<Rightarrow> Inl e
            | Inr d \<Rightarrow>
                (let s' = \<lparr>dj_alpha0 = alpha1, dj_gamma0 = gamma1, dj_diff = d,
                           dj_n_its = dj_n_its s + 1, dj_gamma1 = Some gamma1\<rparr>
                 in if dj_n_its s' > max_it
                    then Inl (ValueError (''Exceeded maximum iterations of '' @ str_int max_it
                                @ ''.'' @ '' Check your input matrices''))
                    else doublej_while max_it s'))
      else Inr s)"
  by pat_completeness auto
termination
  by (relation "measure (\<lambda>(max_it, s). nat (max_it + 1 - dj_n_its s))") auto

declare doublej_while.simps [simp del]

definition doublej :: "matrix \<Rightarrow> matrix \<Rightarrow> int \<Rightarrow> error + matrix" where
  "doublej a1 b1 max_it =
     (case doublej_while max_it
             \<lparr>dj_alpha0 = a1, dj_gamma0 = b1, dj_diff = 5, dj_n_its = 1, dj_gamma1 = None\<rparr> of
        Inl e \<Rightarrow> Inl e
      | Inr s \<Rightarrow>
          (case dj_gamma1 s of
             None \<Rightarrow> Inl (UnboundLocalError ''gamma1'')
           | Some g \<Rightarrow> Inr g))"

text \<open>
  The recursion of the specification: the pair \<open>(alpha, gamma)\<close>, one doubling step, the pair
  after \<open>k\<close> steps, and the largest absolute entrywise difference between the \<open>k\<close>-th
  \<open>gamma\<close> and the one before it.
\<close>

definition doubling_step :: "matrix \<times> matrix \<Rightarrow> matrix \<times> matrix" where
  "doubling_step p =
     (np_dot (fst p) (fst p), np_add (snd p) (np_dot (np_dot (fst p) (snd p)) (np_T (fst p))))"

definition doubling_pair :: "matrix \<times> matrix \<Rightarrow> nat \<Rightarrow> matrix \<times> matrix" where
  "doubling_pair p k = (doubling_step ^^ k) p"

definition gamma_diff :: "matrix \<times> matrix \<Rightarrow> nat \<Rightarrow> error + real" where
  "gamma_diff p k =
     np_max (np_abs (np_sub (snd (doubling_pair p k)) (snd (doubling_pair p (k - 1)))))"

subsection \<open>\<^verbatim>\<open>doublej\<close> on a store of arrays\<close>

text \<open>
  NumPy arrays are mutable objects and \<^verbatim>\<open>doublej\<close> receives references to them:
  \<^verbatim>\<open>alpha0 = a1\<close> and \<^verbatim>\<open>gamma0 = b1\<close> are aliases of the arguments. Whether a call can change
  what a later call sees depends on what the body does to these objects. The second model keeps
  the store: an array is an address into a list of arrays, \<^verbatim>\<open>alpha0.dot(alpha0)\<close> and
  \<^verbatim>\<open>gamma0 + ...\<close> each allocate a new array, and the assignments \<^verbatim>\<open>alpha0 = alpha1\<close>,
  \<^verbatim>\<open>gamma0 = gamma1\<close> copy references. The temporaries of the second expression are left out
  of the store, since nothing refers to them once the statement is over. No statement of the
  function writes into an existing array, and the function reads no global variable, so the
  store is the only state that outlives a call.
\<close>

type_synonym ref = nat

type_synonym heap = "matrix list"

definition new_array :: "heap \<Rightarrow> matrix \<Rightarrow> ref \<times> heap" where
  "new_array h m = (length h, h @ [m])"

record djh_state =
  djh_alpha0 :: ref
  djh_gamma0 :: ref
  djh_diff :: real
  djh_n_its :: int
  djh_gamma1 :: "ref option"

function doublej_while_h :: "int \<Rightarrow> heap \<Rightarrow> djh_state \<Rightarrow> (error + djh_state) \<times> heap" where
  "doublej_while_h max_it h s =
     (if djh_diff s > dj_tol then
        (case new_array h (np_dot (h ! djh_alpha0 s) (h ! djh_alpha0 s)) of
           (alpha1, h1) \<Rightarrow>
        (case new_array h1 (np_add (h1 ! djh_gamma0 s)
                 (np_dot (np_dot (h1 ! djh_alpha0 s) (h1 ! djh_gamma0 s))
                    (np_T (h1 ! djh_alpha0 s)))) of
           (gamma1, h2) \<Rightarrow>
        (case np_max (np_abs (np_sub (h2 ! gamma1) (h2 ! djh_gamma0 s))) of
           Inl e \<Rightarrow> (Inl e, h2)
         | Inr d \<Rightarrow>
             (let s' = \<lparr>djh_alpha0 = alpha1, djh_gamma0 = gamma1, djh_diff = d,
                        djh_n_its = djh_n_its s + 1, djh_gamma1 = Some gamma1\<rparr>
              in if djh_n_its s' > max_it
                 then (Inl (ValueError (''Exceeded maximum iterations of '' @ str_int max_it
                                @ ''.'' @ '' Check your input matrices'')), h2)
                 else doublej_while_h max_it h2 s'))))
      else (Inr s, h))"
  by pat_completeness auto
termination
  by (relation "measure (\<lambda>(max_it, h, s). nat (max_it + 1 - djh_n_its s))")
     (auto simp: new_array_def)

declare doublej_while_h.simps [simp del]

text \<open>A call takes the store and two addresses, and returns an address or an error, and the store.\<close>

definition doublej_h :: "heap \<Rightarrow> ref \<Rightarrow> ref \<Rightarrow> int \<Rightarrow> (error + ref) \<times> heap" where
  "doublej_h h a1 b1 max_it =
     (case doublej_while_h max_it h
             \<lparr>djh_alpha0 = a1, djh_gamma0 = b1, djh_diff = 5, djh_n_its = 1, djh_gamma1 = None\<rparr> of
        (Inl e, h') \<Rightarrow> (Inl e, h')
      | (Inr s, h') \<Rightarrow>
          (case djh_gamma1 s of
             None \<Rightarrow> (Inl (UnboundLocalError ''gamma1''), h')
           | Some g \<Rightarrow> (Inr g, h')))"

text \<open>What a caller observes of an outcome: the error, or the array at the returned address.\<close>

definition outcome :: "heap \<Rightarrow> error + ref \<Rightarrow> error + matrix" where
  "outcome h r = (case r of Inl e \<Rightarrow> Inl e | Inr g \<Rightarrow> Inr (h ! g))"

text \<open>The local variables as values, and the validity of the references they hold.\<close>

definition dj_abs :: "heap \<Rightarrow> djh_state \<Rightarrow> dj_state" where
  "dj_abs h s =
     \<lparr>dj_alpha0 = h ! djh_alpha0 s, dj_gamma0 = h ! djh_gamma0 s, dj_diff = djh_diff s,
      dj_n_its = djh_n_its s, dj_gamma1 = map_option ((!) h) (djh_gamma1 s)\<rparr>"

definition dj_refs_ok :: "heap \<Rightarrow> djh_state \<Rightarrow> bool" where
  "dj_refs_ok h s \<longleftrightarrow>
     djh_alpha0 s < length h \<and> djh_gamma0 s < length h
       \<and> (case djh_gamma1 s of None \<Rightarrow> True | Some g \<Rightarrow> g < length h)"

subsection \<open>\<^verbatim>\<open>doubleo\<close>\<close>

text \<open>
  The local variables of \<^verbatim>\<open>doubleo\<close> that live across iterations. \<^verbatim>\<open>k1\<close> and \<^verbatim>\<open>g1\<close> are bound
  only inside the loop body, so they are optional.
\<close>

record do_state =
  do_a0 :: matrix
  do_b0 :: matrix
  do_g0 :: matrix
  do_dd :: real
  do_k1 :: "matrix option"
  do_g1 :: "matrix option"

text \<open>Lines 116 to 119, after \<^verbatim>\<open>solve(R, C)\<close> has returned \<open>x\<close>.\<close>

definition doubleo_init :: "matrix \<Rightarrow> matrix \<Rightarrow> matrix \<Rightarrow> matrix \<Rightarrow> do_state" where
  "doubleo_init A C Q x =
     \<lparr>do_a0 = np_T A, do_b0 = np_dot (np_T C) x, do_g0 = Q, do_dd = 1,
      do_k1 = None, do_g1 = None\<rparr>"

text \<open>One pass through the loop body (lines 124 to 132).\<close>

definition doubleo_body ::
  "solver \<Rightarrow> matrix \<Rightarrow> matrix \<Rightarrow> matrix \<Rightarrow> matrix \<Rightarrow> do_state \<Rightarrow> error + do_state" where
  "doubleo_body solve A C R v s =
     bindE (solve (np_add v (np_dot (do_b0 s) (do_g0 s))) (do_a0 s)) (\<lambda>x1.
     let a1 = np_dot (do_a0 s) x1 in
     bindE (solve (np_add v (np_dot (do_b0 s) (do_g0 s))) (np_dot (do_b0 s) (np_T (do_a0 s)))) (\<lambda>x2.
     let b1 = np_add (do_b0 s) (np_dot (do_a0 s) x2) in
     bindE (solve (np_add v (np_dot (do_b0 s) (do_g0 s))) (do_a0 s)) (\<lambda>x3.
     let g1 = np_add (do_g0 s) (np_dot (np_dot (np_T (do_a0 s)) (do_g0 s)) x3) in
     bindE (solve (np_add (np_dot (np_dot C (np_T g1)) (np_T C)) (np_T R)) C) (\<lambda>y1.
     let k1 = np_dot (np_dot A g1) (np_T y1) in
     bindE (solve (np_add (np_dot (np_dot C (np_T (do_g0 s))) (np_T C)) (np_T R)) C) (\<lambda>y0.
     let k0 = np_dot (np_dot A (do_g0 s)) (np_T y0) in
     bindE (np_max (np_sub k1 k0)) (\<lambda>d.
     Inr \<lparr>do_a0 = a1, do_b0 = b1, do_g0 = g1, do_dd = d,
          do_k1 = Some k1, do_g1 = Some g1\<rparr>))))))"

text \<open>The \<^verbatim>\<open>while dd > tol\<close> loop; \<open>None\<close> when it runs forever.\<close>

partial_function (option) doubleo_while ::
  "solver \<Rightarrow> matrix \<Rightarrow> matrix \<Rightarrow> matrix \<Rightarrow> matrix \<Rightarrow> real \<Rightarrow> do_state \<Rightarrow> (error + do_state) option" where
  "doubleo_while solve A C R v tol s =
     (if do_dd s > tol
      then (case doubleo_body solve A C R v s of
              Inl e \<Rightarrow> Some (Inl e)
            | Inr s' \<Rightarrow> doubleo_while solve A C R v tol s')
      else Some (Inr s))"

declare doubleo_while.simps [code]

definition doubleo ::
  "solver \<Rightarrow> matrix \<Rightarrow> matrix \<Rightarrow> matrix \<Rightarrow> matrix \<Rightarrow> real \<Rightarrow> (error + matrix \<times> matrix) option" where
  "doubleo solve A C Q R tol =
     (case solve R C of
        Inl e \<Rightarrow> Some (Inl e)
      | Inr x \<Rightarrow>
         (let ss = max (nrows A) (ncols A); v = np_eye ss
          in case doubleo_while solve A C R v tol (doubleo_init A C Q x) of
               None \<Rightarrow> None
             | Some (Inl e) \<Rightarrow> Some (Inl e)
             | Some (Inr s) \<Rightarrow>
                 (case do_k1 s of
                    None \<Rightarrow> Some (Inl (UnboundLocalError ''k1''))
                  | Some k1 \<Rightarrow>
                     (case do_g1 s of
                        None \<Rightarrow> Some (Inl (UnboundLocalError ''g1''))
                      | Some g1 \<Rightarrow> Some (Inr (k1, g1))))))"

text \<open>The state after \<open>n\<close> passes through the loop body, whatever the guard says.\<close>

fun doubleo_iter ::
  "solver \<Rightarrow> matrix \<Rightarrow> matrix \<Rightarrow> matrix \<Rightarrow> matrix \<Rightarrow> nat \<Rightarrow> do_state \<Rightarrow> error + do_state" where
  "doubleo_iter solve A C R v 0 s = Inr s"
| "doubleo_iter solve A C R v (Suc n) s =
     bindE (doubleo_body solve A C R v s) (doubleo_iter solve A C R v n)"

text \<open>
  The loop passes through its body \<open>n\<close> times and more when each of the states before pass
  \<open>1, \<dots>, n\<close> exists and satisfies the guard \<^verbatim>\<open>dd > tol\<close>. It leaves after exactly \<open>n\<close> passes
  with \<open>r\<close> when, besides, the \<open>n\<close>-th pass raises \<open>r\<close>, or gives the state \<open>r\<close> that fails the
  guard.
\<close>

definition runs_on ::
  "solver \<Rightarrow> matrix \<Rightarrow> matrix \<Rightarrow> matrix \<Rightarrow> matrix \<Rightarrow> real \<Rightarrow> nat \<Rightarrow> do_state \<Rightarrow> bool" where
  "runs_on solve A C R v tol n s \<longleftrightarrow>
     (\<forall>i<n. \<exists>si. doubleo_iter solve A C R v i s = Inr si \<and> do_dd si > tol)"

definition stops_at ::
  "solver \<Rightarrow> matrix \<Rightarrow> matrix \<Rightarrow> matrix \<Rightarrow> matrix \<Rightarrow> real \<Rightarrow> nat \<Rightarrow> do_state
    \<Rightarrow> error + do_state \<Rightarrow> bool" where
  "stops_at solve A C R v tol n s r \<longleftrightarrow>
     runs_on solve A C R v tol n s \<and> doubleo_iter solve A C R v n s = r
       \<and> (case r of Inl e \<Rightarrow> True | Inr sn \<Rightarrow> \<not> do_dd sn > tol)"

text \<open>
  The update of the specification: \<open>a1 = a0\<cdot>T\<cdot>a0\<close>, \<open>b1 = b0 + a0\<cdot>T\<cdot>(b0\<cdot>a0\<^sup>T)\<close> and
  \<open>g1 = g0 + (a0\<^sup>T\<cdot>g0)\<cdot>T\<cdot>a0\<close> with \<open>T = (I + b0\<cdot>g0)\<^sup>-\<^sup>1\<close>, where a product \<open>T\<cdot>x\<close> is the
  solution of the linear system with coefficient matrix \<open>I + b0\<cdot>g0\<close> and right-hand side \<open>x\<close>.
\<close>

definition riccati_update ::
  "solver \<Rightarrow> matrix \<Rightarrow> matrix \<times> matrix \<times> matrix \<Rightarrow> error + matrix \<times> matrix \<times> matrix" where
  "riccati_update solve I t =
     (case t of (a0, b0, g0) \<Rightarrow>
        bindE (solve (np_add I (np_dot b0 g0)) a0) (\<lambda>Ta.
        bindE (solve (np_add I (np_dot b0 g0)) (np_dot b0 (np_T a0))) (\<lambda>Tb.
        Inr (np_dot a0 Ta,
             np_add b0 (np_dot a0 Tb),
             np_add g0 (np_dot (np_dot (np_T a0) g0) Ta)))))"

fun riccati_iter ::
  "solver \<Rightarrow> matrix \<Rightarrow> nat \<Rightarrow> matrix \<times> matrix \<times> matrix \<Rightarrow> error + matrix \<times> matrix \<times> matrix" where
  "riccati_iter solve I 0 t = Inr t"
| "riccati_iter solve I (Suc n) t = bindE (riccati_update solve I t) (riccati_iter solve I n)"

text \<open>The candidate gain of the specification: \<open>A\<cdot>g\<cdot>solve(C\<cdot>g\<^sup>T\<cdot>C\<^sup>T + R\<^sup>T, C)\<^sup>T\<close>.\<close>

definition kalman_gain :: "solver \<Rightarrow> matrix \<Rightarrow> matrix \<Rightarrow> matrix \<Rightarrow> matrix \<Rightarrow> error + matrix" where
  "kalman_gain solve A C R g =
     bindE (solve (np_add (np_dot (np_dot C (np_T g)) (np_T C)) (np_T R)) C) (\<lambda>y.
     Inr (np_dot (np_dot A g) (np_T y)))"

subsection \<open>\<^verbatim>\<open>olrp\<close>\<close>

text \<open>
  The \<^verbatim>\<open>for it in range(max_iter)\<close> loop of the \<^verbatim>\<open>else\<close> branch (lines 220 to 231), with the
  number of values that \<^verbatim>\<open>range\<close> has left. The result is \<open>Some (f1, p1)\<close> when the loop leaves at
  \<^verbatim>\<open>break\<close>, and \<open>None\<close> when \<^verbatim>\<open>range\<close> is used up, which is when Python runs the loop's \<^verbatim>\<open>else\<close>
  clause.
\<close>

fun olrp_for ::
  "solver \<Rightarrow> real \<Rightarrow> matrix \<Rightarrow> matrix \<Rightarrow> matrix \<Rightarrow> matrix \<Rightarrow> matrix \<Rightarrow> real \<Rightarrow> nat \<Rightarrow> matrix
    \<Rightarrow> error + (matrix \<times> matrix) option" where
  "olrp_for solve beta A B Q R W tol 0 p0 = Inr None"
| "olrp_for solve beta A B Q R W tol (Suc n) p0 =
     bindE (solve (np_add R (np_smul beta (np_dot (np_dot (np_T B) p0) B)))
                  (np_add (np_smul beta (np_dot (np_dot (np_T B) p0) A)) (np_T W))) (\<lambda>f0.
     let p1 = np_sub (np_add (np_smul beta (np_dot (np_dot (np_T A) p0) A)) Q)
                     (np_dot (np_add (np_smul beta (np_dot (np_dot (np_T A) p0) B)) W) f0) in
     bindE (solve (np_add R (np_smul beta (np_dot (np_dot (np_T B) p1) B)))
                  (np_add (np_smul beta (np_dot (np_dot (np_T B) p1) A)) (np_T W))) (\<lambda>f1.
     bindE (np_max (np_sub f1 f0)) (\<lambda>dd.
     if dd > tol then Inr (Some (f1, p1))
     else olrp_for solve beta A B Q R W tol n p1)))"

text \<open>
  Lines 220 to 237: the loop, its \<^verbatim>\<open>else\<close> clause, which raises, and the assignments
  \<^verbatim>\<open>f = f1\<close> and \<^verbatim>\<open>p = p1\<close> that follow a \<^verbatim>\<open>break\<close>.
\<close>

definition olrp_value_iteration ::
  "solver \<Rightarrow> real \<Rightarrow> matrix \<Rightarrow> matrix \<Rightarrow> matrix \<Rightarrow> matrix \<Rightarrow> matrix \<Rightarrow> real \<Rightarrow> int \<Rightarrow> matrix
    \<Rightarrow> error + matrix \<times> matrix" where
  "olrp_value_iteration solve beta A B Q R W tol max_iter p0 =
     bindE (olrp_for solve beta A B Q R W tol (nat max_iter) p0) (\<lambda>r.
       case r of
         None \<Rightarrow> Inl (ValueError (''No convergence: Iteration limit of ''
                         @ str_int max_iter @ '' reached in OLRP''))
       | Some (f1, p1) \<Rightarrow> Inr (f1, p1))"

text \<open>
  \<^verbatim>\<open>olrp(beta, A, B, Q, R, W, tol, max_iter)\<close>; \<open>W = None\<close> is the default argument. The call of
  \<^verbatim>\<open>doubleo\<close> in the first branch leaves \<^verbatim>\<open>tol\<close> at its default \<^verbatim>\<open>1e-15\<close>.
\<close>

definition olrp ::
  "solver \<Rightarrow> eigsolver \<Rightarrow> real \<Rightarrow> matrix \<Rightarrow> matrix \<Rightarrow> matrix \<Rightarrow> matrix \<Rightarrow> matrix option
    \<Rightarrow> real \<Rightarrow> int \<Rightarrow> (error + matrix \<times> matrix) option" where
  "olrp solve eig beta A B Q R W_arg tol max_iter =
     (let m = max (nrows A) (ncols A);
          cb = ncols B;
          W = (case W_arg of None \<Rightarrow> np_zeros m cb | Some w \<Rightarrow> w)
      in case bindE (eig R) (\<lambda>ev. np_max1 (map cmod ev)) of
           Inl e \<Rightarrow> Some (Inl e)
         | Inr mx \<Rightarrow>
            if mx > 1 / 10 ^ 5 then
              (case bindE (py_sqrt beta) (\<lambda>sb.
                    bindE (solve R (np_T W)) (\<lambda>x1.
                    let A' = np_smul sb (np_sub A (np_dot B x1)) in
                    bindE (py_sqrt beta) (\<lambda>sb'.
                    let B' = np_smul sb' B in
                    bindE (solve R (np_T W)) (\<lambda>x2.
                    let Q' = np_sub Q (np_dot W x2) in
                    Inr (A', B', Q'))))) of
                 Inl e \<Rightarrow> Some (Inl e)
               | Inr (A', B', Q') \<Rightarrow>
                  (case doubleo solve (np_T A') (np_T B') Q' R (1 / 10 ^ 15) of
                     None \<Rightarrow> None
                   | Some (Inl e) \<Rightarrow> Some (Inl e)
                   | Some (Inr (k, s)) \<Rightarrow>
                       Some (bindE (solve R (np_T W)) (\<lambda>x3.
                             Inr (np_add (np_T k) x3, s)))))
            else
              (let p0 = np_smul (- (1 / 10)) (np_eye m)
               in Some (olrp_value_iteration solve beta A B Q R W tol max_iter p0)))"

text \<open>
  The first branch as the specification words it: with \<open>X = R\<^sup>-\<^sup>1\<cdot>W\<^sup>T\<close> (one linear solve),
  \<open>A~ = \<surd>beta\<cdot>(A - B\<cdot>X)\<close>, \<open>B~ = \<surd>beta\<cdot>B\<close>, \<open>Q~ = Q - W\<cdot>X\<close>, the Riccati doubler is run on
  \<open>(A~\<^sup>T, B~\<^sup>T, Q~, R)\<close> and gives \<open>(K, S)\<close>; the result is \<open>F = K\<^sup>T + X\<close> and \<open>P = S\<close>. The
  square root is the program's, which raises on a negative \<open>beta\<close>.
\<close>

definition regulator_by_duality ::
  "solver \<Rightarrow> real \<Rightarrow> matrix \<Rightarrow> matrix \<Rightarrow> matrix \<Rightarrow> matrix \<Rightarrow> matrix
    \<Rightarrow> (error + matrix \<times> matrix) option" where
  "regulator_by_duality solve beta A B Q R W =
     (case py_sqrt beta of
        Inl e \<Rightarrow> Some (Inl e)
      | Inr rb \<Rightarrow>
     (case solve R (np_T W) of
        Inl e \<Rightarrow> Some (Inl e)
      | Inr X \<Rightarrow>
         (case doubleo solve (np_T (np_smul rb (np_sub A (np_dot B X))))
                 (np_T (np_smul rb B)) (np_sub Q (np_dot W X)) R (1 / 10 ^ 15) of
            None \<Rightarrow> None
          | Some (Inl e) \<Rightarrow> Some (Inl e)
          | Some (Inr (K, S)) \<Rightarrow> Some (Inr (np_add (np_T K) X, S)))))"

subsection \<open>\<^verbatim>\<open>olrp\<close> with a record of its linear solves\<close>

text \<open>
  Which linear systems a call of \<^verbatim>\<open>olrp\<close> hands to \<^verbatim>\<open>solve\<close> cannot be read off its result.
  The second model of \<^verbatim>\<open>olrp\<close> keeps them: every \<^verbatim>\<open>solve(M, N)\<close> written in the body of \<^verbatim>\<open>olrp\<close>
  (lines 205, 207, 211, 221 and 225) appends the pair \<open>(M, N)\<close> to a list, in the order of
  evaluation, whether the solve returns or raises. The solves that \<^verbatim>\<open>doubleo\<close> makes inside
  its own body are not part of the list.
\<close>

type_synonym call = "matrix \<times> matrix"

definition solve_logged ::
  "solver \<Rightarrow> matrix \<Rightarrow> matrix \<Rightarrow> call list \<Rightarrow> (error + matrix) \<times> call list" where
  "solve_logged solve M N calls = (solve M N, calls @ [(M, N)])"

fun olrp_for_log ::
  "solver \<Rightarrow> real \<Rightarrow> matrix \<Rightarrow> matrix \<Rightarrow> matrix \<Rightarrow> matrix \<Rightarrow> matrix \<Rightarrow> real \<Rightarrow> nat \<Rightarrow> matrix
    \<Rightarrow> call list \<Rightarrow> (error + (matrix \<times> matrix) option) \<times> call list" where
  "olrp_for_log solve beta A B Q R W tol 0 p0 calls = (Inr None, calls)"
| "olrp_for_log solve beta A B Q R W tol (Suc n) p0 calls =
     (case solve_logged solve (np_add R (np_smul beta (np_dot (np_dot (np_T B) p0) B)))
             (np_add (np_smul beta (np_dot (np_dot (np_T B) p0) A)) (np_T W)) calls of
        (Inl e, calls1) \<Rightarrow> (Inl e, calls1)
      | (Inr f0, calls1) \<Rightarrow>
         (let p1 = np_sub (np_add (np_smul beta (np_dot (np_dot (np_T A) p0) A)) Q)
                     (np_dot (np_add (np_smul beta (np_dot (np_dot (np_T A) p0) B)) W) f0)
          in case solve_logged solve (np_add R (np_smul beta (np_dot (np_dot (np_T B) p1) B)))
                    (np_add (np_smul beta (np_dot (np_dot (np_T B) p1) A)) (np_T W)) calls1 of
               (Inl e, calls2) \<Rightarrow> (Inl e, calls2)
             | (Inr f1, calls2) \<Rightarrow>
                 (case np_max (np_sub f1 f0) of
                    Inl e \<Rightarrow> (Inl e, calls2)
                  | Inr dd \<Rightarrow>
                      if dd > tol then (Inr (Some (f1, p1)), calls2)
                      else olrp_for_log solve beta A B Q R W tol n p1 calls2)))"

definition olrp_log ::
  "solver \<Rightarrow> eigsolver \<Rightarrow> real \<Rightarrow> matrix \<Rightarrow> matrix \<Rightarrow> matrix \<Rightarrow> matrix \<Rightarrow> matrix option
    \<Rightarrow> real \<Rightarrow> int \<Rightarrow> ((error + matrix \<times> matrix) \<times> call list) option" where
  "olrp_log solve eig beta A B Q R W_arg tol max_iter =
     (let m = max (nrows A) (ncols A);
          cb = ncols B;
          W = (case W_arg of None \<Rightarrow> np_zeros m cb | Some w \<Rightarrow> w)
      in case bindE (eig R) (\<lambda>ev. np_max1 (map cmod ev)) of
           Inl e \<Rightarrow> Some (Inl e, [])
         | Inr mx \<Rightarrow>
            if mx > 1 / 10 ^ 5 then
              (case py_sqrt beta of
                 Inl e \<Rightarrow> Some (Inl e, [])
               | Inr sb \<Rightarrow>
              (case solve_logged solve R (np_T W) [] of
                 (Inl e, calls1) \<Rightarrow> Some (Inl e, calls1)
               | (Inr x1, calls1) \<Rightarrow>
              (let A' = np_smul sb (np_sub A (np_dot B x1)) in
               case py_sqrt beta of
                 Inl e \<Rightarrow> Some (Inl e, calls1)
               | Inr sb' \<Rightarrow>
              (let B' = np_smul sb' B in
               case solve_logged solve R (np_T W) calls1 of
                 (Inl e, calls2) \<Rightarrow> Some (Inl e, calls2)
               | (Inr x2, calls2) \<Rightarrow>
              (let Q' = np_sub Q (np_dot W x2) in
               case doubleo solve (np_T A') (np_T B') Q' R (1 / 10 ^ 15) of
                 None \<Rightarrow> None
               | Some (Inl e) \<Rightarrow> Some (Inl e, calls2)
               | Some (Inr (k, s)) \<Rightarrow>
                  (case solve_logged solve R (np_T W) calls2 of
                     (Inl e, calls3) \<Rightarrow> Some (Inl e, calls3)
                   | (Inr x3, calls3) \<Rightarrow> Some (Inr (np_add (np_T k) x3, s), calls3)))))))
            else
              (let p0 = np_smul (- (1 / 10)) (np_eye m)
               in case olrp_for_log solve beta A B Q R W tol (nat max_iter) p0 [] of
                    (Inl e, calls) \<Rightarrow> Some (Inl e, calls)
                  | (Inr None, calls) \<Rightarrow>
                      Some (Inl (ValueError (''No convergence: Iteration limit of ''
                                   @ str_int max_iter @ '' reached in OLRP'')), calls)
                  | (Inr (Some (f1, p1)), calls) \<Rightarrow> Some (Inr (f1, p1), calls)))"

text \<open>
  The linear system of the value iteration in the specification, \<open>F\<close> from
  \<open>(R + beta\<cdot>B\<^sup>T\<cdot>P\<cdot>B)\<^sup>-\<^sup>1\<cdot>(beta\<cdot>B\<^sup>T\<cdot>P\<cdot>A + W\<^sup>T)\<close>, as the pair of its coefficient matrix and its
  right-hand side, and the discounted Riccati update of \<open>P\<close>.
\<close>

definition riccati_system ::
  "real \<Rightarrow> matrix \<Rightarrow> matrix \<Rightarrow> matrix \<Rightarrow> matrix \<Rightarrow> matrix \<Rightarrow> call" where
  "riccati_system beta A B R W P =
     (np_add R (np_smul beta (np_dot (np_dot (np_T B) P) B)),
      np_add (np_smul beta (np_dot (np_dot (np_T B) P) A)) (np_T W))"

definition bellman_update ::
  "real \<Rightarrow> matrix \<Rightarrow> matrix \<Rightarrow> matrix \<Rightarrow> matrix \<Rightarrow> matrix \<Rightarrow> matrix \<Rightarrow> matrix" where
  "bellman_update beta A B Q W P F =
     np_sub (np_add (np_smul beta (np_dot (np_dot (np_T A) P) A)) Q)
            (np_dot (np_add (np_smul beta (np_dot (np_dot (np_T A) P) B)) W) F)"

text \<open>
  The systems that the value iteration of the specification solves in at most \<open>n\<close> passes
  from \<open>P\<close>, in order, when no pass ends the iteration: the system of \<open>P\<close> for \<open>F0\<close>, then the
  system of the updated \<open>P1\<close> for \<open>F1\<close>, then those of the next pass from \<open>P1\<close>. The list ends
  after a system that the solver refuses.
\<close>

fun value_iteration_systems ::
  "solver \<Rightarrow> real \<Rightarrow> matrix \<Rightarrow> matrix \<Rightarrow> matrix \<Rightarrow> matrix \<Rightarrow> matrix \<Rightarrow> nat \<Rightarrow> matrix \<Rightarrow> call list" where
  "value_iteration_systems solve beta A B Q R W 0 P = []"
| "value_iteration_systems solve beta A B Q R W (Suc n) P =
     riccati_system beta A B R W P #
     (case solve (fst (riccati_system beta A B R W P)) (snd (riccati_system beta A B R W P)) of
        Inl e \<Rightarrow> []
      | Inr F0 \<Rightarrow>
          riccati_system beta A B R W (bellman_update beta A B Q W P F0) #
          (case solve (fst (riccati_system beta A B R W (bellman_update beta A B Q W P F0)))
                  (snd (riccati_system beta A B R W (bellman_update beta A B Q W P F0))) of
             Inl e \<Rightarrow> []
           | Inr F1 \<Rightarrow>
               value_iteration_systems solve beta A B Q R W n
                 (bellman_update beta A B Q W P F0)))"

subsection \<open>Solvers for small systems\<close>

text \<open>
  To evaluate the functions at concrete inputs the parameters \<open>solve\<close> and \<open>eig\<close> need values.
  \<open>solve_small\<close> solves systems of order one and two exactly (Cramer's rule) and raises
  \<^verbatim>\<open>LinAlgError\<close> on a singular coefficient matrix, as \<^verbatim>\<open>scipy.linalg.solve\<close> does. \<open>eig_diag\<close>
  returns the diagonal, which is the list of eigenvalues of a triangular matrix.
\<close>

definition solve_small :: solver where
  "solve_small M N =
     (case (M, N) of
        ([[a]], [bs]) \<Rightarrow>
          (if a = 0 then Inl (LinAlgError ''Matrix is singular.'')
           else Inr [map (\<lambda>b. b / a) bs])
      | ([[a, b], [c, d]], [r1, r2]) \<Rightarrow>
          (if a * d - b * c = 0 then Inl (LinAlgError ''Matrix is singular.'')
           else Inr [map2 (\<lambda>x y. (d * x - b * y) / (a * d - b * c)) r1 r2,
                     map2 (\<lambda>x y. (a * y - c * x) / (a * d - b * c)) r1 r2])
      | _ \<Rightarrow> Inl (ValueError ''solve_small: order above two''))"

definition eig_diag :: eigsolver where
  "eig_diag M = Inr (map (\<lambda>i. complex_of_real (M ! i ! i)) [0..<length M])"

section \<open>Properties\<close>

subsection \<open>Evaluation at concrete inputs\<close>

lemmas np_defs =
  np_dot_def np_add_def np_sub_def np_smul_def np_abs_def np_max_def np_max1_def
  np_zeros_def nrows_def ncols_def bindE_def

lemma bindE_Inr_iff: "bindE m f = Inr y \<longleftrightarrow> (\<exists>x. m = Inr x \<and> f x = Inr y)"
  by (cases m) (simp_all add: bindE_def)

subsection \<open>\<^verbatim>\<open>doublej\<close>: the loop\<close>

lemma doublej_while_stop: "\<not> dj_diff s > dj_tol \<Longrightarrow> doublej_while max_it s = Inr s"
  by (subst doublej_while.simps) simp

lemma doublej_while_unfold:
  assumes "dj_diff s > dj_tol"
  shows "doublej_while max_it s =
     (case np_max (np_abs (np_sub (np_add (dj_gamma0 s)
              (np_dot (np_dot (dj_alpha0 s) (dj_gamma0 s)) (np_T (dj_alpha0 s)))) (dj_gamma0 s))) of
        Inl e \<Rightarrow> Inl e
      | Inr d \<Rightarrow>
          if dj_n_its s + 1 > max_it
          then Inl (ValueError (''Exceeded maximum iterations of '' @ str_int max_it
                                @ ''.'' @ '' Check your input matrices''))
          else doublej_while max_it
                 \<lparr>dj_alpha0 = np_dot (dj_alpha0 s) (dj_alpha0 s),
                  dj_gamma0 = np_add (dj_gamma0 s)
                        (np_dot (np_dot (dj_alpha0 s) (dj_gamma0 s)) (np_T (dj_alpha0 s))),
                  dj_diff = d, dj_n_its = dj_n_its s + 1,
                  dj_gamma1 = Some (np_add (dj_gamma0 s)
                        (np_dot (np_dot (dj_alpha0 s) (dj_gamma0 s)) (np_T (dj_alpha0 s))))\<rparr>)"
  using assms by (subst doublej_while.simps) (simp add: Let_def split: sum.splits)

lemma doubling_pair_shift: "doubling_pair (doubling_step p) k = doubling_pair p (Suc k)"
  by (simp add: doubling_pair_def funpow_swap1)

lemma gamma_diff_shift:
  assumes "1 \<le> i"
  shows "gamma_diff (doubling_step p) i = gamma_diff p (Suc i)"
proof -
  from assms obtain j where j: "i = Suc j" by (cases i) auto
  show ?thesis
    unfolding gamma_diff_def j doubling_pair_shift by simp
qed

lemma gamma_diff_first:
  "gamma_diff p (Suc 0) = np_max (np_abs (np_sub (snd (doubling_step p)) (snd p)))"
  by (simp add: gamma_diff_def doubling_pair_def)

lemma doublej_while_pass:
  assumes "dj_diff s > dj_tol"
    and "gamma_diff (dj_alpha0 s, dj_gamma0 s) (Suc 0) = Inr d"
    and "dj_n_its s + 1 \<le> max_it"
  shows "doublej_while max_it s =
     doublej_while max_it
       \<lparr>dj_alpha0 = fst (doubling_step (dj_alpha0 s, dj_gamma0 s)),
        dj_gamma0 = snd (doubling_step (dj_alpha0 s, dj_gamma0 s)),
        dj_diff = d, dj_n_its = dj_n_its s + 1,
        dj_gamma1 = Some (snd (doubling_step (dj_alpha0 s, dj_gamma0 s)))\<rparr>"
  using assms(2,3) unfolding doublej_while_unfold [OF assms(1)]
  by (simp add: gamma_diff_first doubling_step_def)

lemma doublej_while_run:
  assumes "dj_diff s > dj_tol"
    and "\<forall>i. 1 \<le> i \<and> i \<le> k \<longrightarrow>
           (\<exists>d. gamma_diff (dj_alpha0 s, dj_gamma0 s) i = Inr d \<and> d > dj_tol)"
    and "gamma_diff (dj_alpha0 s, dj_gamma0 s) (Suc k) = Inr d'" and "d' \<le> dj_tol"
    and "dj_n_its s + int k + 1 \<le> max_it"
  shows "doublej_while max_it s =
     Inr \<lparr>dj_alpha0 = fst (doubling_pair (dj_alpha0 s, dj_gamma0 s) (Suc k)),
        dj_gamma0 = snd (doubling_pair (dj_alpha0 s, dj_gamma0 s) (Suc k)),
        dj_diff = d', dj_n_its = dj_n_its s + int k + 1,
        dj_gamma1 = Some (snd (doubling_pair (dj_alpha0 s, dj_gamma0 s) (Suc k)))\<rparr>"
  using assms
proof (induction k arbitrary: s)
  case 0
  let ?p = "(dj_alpha0 s, dj_gamma0 s)"
  let ?s' = "\<lparr>dj_alpha0 = fst (doubling_step ?p), dj_gamma0 = snd (doubling_step ?p),
        dj_diff = d', dj_n_its = dj_n_its s + 1, dj_gamma1 = Some (snd (doubling_step ?p))\<rparr>"
  have "doublej_while max_it s = doublej_while max_it ?s'"
    using 0 by (intro doublej_while_pass) auto
  also have "\<dots> = Inr ?s'"
    using 0 by (intro doublej_while_stop) simp
  finally show ?case by (simp add: doubling_pair_def)
next
  case (Suc k)
  let ?p = "(dj_alpha0 s, dj_gamma0 s)"
  from Suc.prems(2) obtain d1 where d1: "gamma_diff ?p (Suc 0) = Inr d1" "d1 > dj_tol"
    by (auto dest: spec [of _ "Suc 0"])
  let ?s' = "\<lparr>dj_alpha0 = fst (doubling_step ?p), dj_gamma0 = snd (doubling_step ?p),
        dj_diff = d1, dj_n_its = dj_n_its s + 1, dj_gamma1 = Some (snd (doubling_step ?p))\<rparr>"
  have pass: "doublej_while max_it s = doublej_while max_it ?s'"
    using Suc.prems d1 by (intro doublej_while_pass) auto
  have sh: "(dj_alpha0 ?s', dj_gamma0 ?s') = doubling_step ?p" by simp
  have "doublej_while max_it ?s' =
     Inr \<lparr>dj_alpha0 = fst (doubling_pair (dj_alpha0 ?s', dj_gamma0 ?s') (Suc k)),
        dj_gamma0 = snd (doubling_pair (dj_alpha0 ?s', dj_gamma0 ?s') (Suc k)),
        dj_diff = d', dj_n_its = dj_n_its ?s' + int k + 1,
        dj_gamma1 = Some (snd (doubling_pair (dj_alpha0 ?s', dj_gamma0 ?s') (Suc k)))\<rparr>"
  proof (rule Suc.IH)
    show "dj_tol < dj_diff ?s'" using d1 by simp
    show "dj_n_its ?s' + int k + 1 \<le> max_it" using Suc.prems by simp
    show "\<forall>i. 1 \<le> i \<and> i \<le> k \<longrightarrow>
            (\<exists>d. gamma_diff (dj_alpha0 ?s', dj_gamma0 ?s') i = Inr d \<and> d > dj_tol)"
      unfolding sh using Suc.prems(2) by (auto simp: gamma_diff_shift)
    show "gamma_diff (dj_alpha0 ?s', dj_gamma0 ?s') (Suc k) = Inr d'"
      unfolding sh using Suc.prems(3) by (simp add: gamma_diff_shift)
    show "d' \<le> dj_tol" by fact
  qed
  then show ?case
    unfolding pass sh doubling_pair_shift by simp
qed

text \<open>
  Claim C8. \<^verbatim>\<open>doublej\<close> keeps a pair \<open>(alpha, gamma)\<close> that starts at \<open>(a1, b1)\<close>; every step
  replaces it by \<open>(alpha\<cdot>alpha, gamma + alpha\<cdot>gamma\<cdot>alpha\<^sup>T)\<close>; the convergence test is that the
  largest absolute entrywise difference between two successive \<open>gamma\<close> is at most the fixed
  \<open>1e-15\<close>. Stated on the result: when the differences of steps \<open>1, \<dots>, k - 1\<close> are above
  \<open>1e-15\<close>, the difference of step \<open>k\<close> is not, and \<open>k\<close> is below the cap, the call returns the
  \<open>gamma\<close> of the \<open>k\<close>-th pair of the recursion.
\<close>

theorem doublej_doubling_recursion:
  assumes "1 \<le> k" and "int k < max_it"
    and "\<forall>i. 1 \<le> i \<and> i < k \<longrightarrow> (\<exists>d. gamma_diff (a1, b1) i = Inr d \<and> d > 1 / 10 ^ 15)"
    and "gamma_diff (a1, b1) k = Inr d" and "d \<le> 1 / 10 ^ 15"
  shows "doublej a1 b1 max_it = Inr (snd (doubling_pair (a1, b1) k))"
proof -
  from assms(1) obtain j where j: "k = Suc j" by (cases k) auto
  let ?s = "\<lparr>dj_alpha0 = a1, dj_gamma0 = b1, dj_diff = 5, dj_n_its = 1, dj_gamma1 = None\<rparr>"
  have "doublej_while max_it ?s =
     Inr \<lparr>dj_alpha0 = fst (doubling_pair (dj_alpha0 ?s, dj_gamma0 ?s) (Suc j)),
        dj_gamma0 = snd (doubling_pair (dj_alpha0 ?s, dj_gamma0 ?s) (Suc j)),
        dj_diff = d, dj_n_its = dj_n_its ?s + int j + 1,
        dj_gamma1 = Some (snd (doubling_pair (dj_alpha0 ?s, dj_gamma0 ?s) (Suc j)))\<rparr>"
  proof (rule doublej_while_run)
    show "dj_tol < dj_diff ?s" by (simp add: dj_tol_def)
    show "dj_n_its ?s + int j + 1 \<le> max_it" using assms(2) j by simp
    show "\<forall>i. 1 \<le> i \<and> i \<le> j \<longrightarrow>
            (\<exists>d. gamma_diff (dj_alpha0 ?s, dj_gamma0 ?s) i = Inr d \<and> d > dj_tol)"
      using assms(3) j by (auto simp: dj_tol_def)
    show "gamma_diff (dj_alpha0 ?s, dj_gamma0 ?s) (Suc j) = Inr d" using assms(4) j by simp
    show "d \<le> dj_tol" using assms(5) by (simp add: dj_tol_def)
  qed
  then show ?thesis by (simp add: doublej_def j)
qed

text \<open>
  With \<open>a1\<close> nilpotent and \<open>b1\<close> the identity the second step changes nothing, so the call
  returns the \<open>gamma\<close> of the second pair.
\<close>

lemma nilpotent_pairs:
  "doubling_pair ([[0, 1], [0, 0]], [[1, 0], [0, 1]]) (Suc 0) = ([[0, 0], [0, 0]], [[2, 0], [0, 1]])"
  "doubling_pair ([[0, 1], [0, 0]], [[1, 0], [0, 1]]) (Suc (Suc 0)) = ([[0, 0], [0, 0]], [[2, 0], [0, 1]])"
  by (simp_all add: doubling_pair_def doubling_step_def np_defs)

lemma nilpotent_diffs:
  "gamma_diff ([[0, 1], [0, 0]], [[1, 0], [0, 1]]) (Suc 0) = Inr 1"
  "gamma_diff ([[0, 1], [0, 0]], [[1, 0], [0, 1]]) (Suc (Suc 0)) = Inr 0"
  by (simp_all add: gamma_diff_def nilpotent_pairs np_defs) (simp_all add: doubling_pair_def)

theorem doublej_doubling_recursion_witness:
  "doublej [[0, 1], [0, 0]] [[1, 0], [0, 1]] 50 = Inr [[2, 0], [0, 1]]"
proof -
  let ?p = "([[0, 1], [0, 0]], [[1, 0], [0, 1]]) :: matrix \<times> matrix"
  have two: "(2::nat) = Suc (Suc 0)" by simp
  have a: "\<forall>i. 1 \<le> i \<and> i < (2::nat) \<longrightarrow> (\<exists>d. gamma_diff ?p i = Inr d \<and> d > 1 / 10 ^ 15)"
  proof (intro allI impI)
    fix i :: nat assume "1 \<le> i \<and> i < 2"
    then have "i = Suc 0" by simp
    then show "\<exists>d. gamma_diff ?p i = Inr d \<and> d > 1 / 10 ^ 15"
      by (simp add: nilpotent_diffs)
  qed
  have b: "gamma_diff ?p 2 = Inr 0" unfolding two by (rule nilpotent_diffs)
  have "doublej [[0, 1], [0, 0]] [[1, 0], [0, 1]] 50 = Inr (snd (doubling_pair ?p 2))"
    by (rule doublej_doubling_recursion [OF _ _ a b]) simp_all
  then show ?thesis unfolding two by (simp add: nilpotent_pairs)
qed

text \<open>
  Claim C2. \<^verbatim>\<open>doublej\<close> raises the error that names \<^verbatim>\<open>max_it\<close> if and only if the tolerance is
  not met within \<^verbatim>\<open>max_it\<close> iterations, and returns the freshest \<open>gamma\<close> whenever the tolerance
  is met within the cap. The program counts from \<^verbatim>\<open>n_its = 1\<close>, adds one in every pass and
  raises as soon as the counter is above \<^verbatim>\<open>max_it\<close>, before the loop guard sees the new
  difference. For \<open>a1 = 0\<close>, \<open>b1 = 1\<close> and a cap of one iteration the first difference is zero,
  and the call raises all the same; with a cap of two it returns the \<open>gamma\<close> of that first
  iteration.
\<close>

theorem doublej_raises_on_convergence_at_cap:
  "gamma_diff ([[0]], [[1]]) 1 = Inr 0
   \<and> doublej [[0]] [[1]] 1
       = Inl (ValueError ''Exceeded maximum iterations of 1. Check your input matrices'')
   \<and> doublej [[0]] [[1]] 2 = Inr [[1]]"
  by (simp add: doublej_def doublej_while.simps gamma_diff_def doubling_pair_def
      doubling_step_def dj_tol_def np_defs str_int_def Let_def)


subsection \<open>\<^verbatim>\<open>doublej\<close> on the store\<close>

text \<open>
  The loop on the store only appends arrays, and what it computes is what the loop on values
  computes from the arrays that its references point to.
\<close>

lemma doublej_while_h_sim:
  assumes "dj_refs_ok h s" and "doublej_while_h max_it h s = (r, h')"
  shows "(\<exists>ys. h' = h @ ys)
       \<and> (case r of
            Inl e \<Rightarrow> doublej_while max_it (dj_abs h s) = Inl e
          | Inr s' \<Rightarrow> dj_refs_ok h' s'
                       \<and> doublej_while max_it (dj_abs h s) = Inr (dj_abs h' s'))"
  using assms
proof (induction max_it h s arbitrary: r h' rule: doublej_while_h.induct)
  case (1 max_it h s)
  show ?case
  proof (cases "djh_diff s > dj_tol")
    case False
    then have "doublej_while max_it (dj_abs h s) = Inr (dj_abs h s)"
      by (intro doublej_while_stop) (simp add: dj_abs_def)
    with False "1.prems" show ?thesis
      by (auto simp: doublej_while_h.simps [of max_it h s])
  next
    case True
    let ?a = "h ! djh_alpha0 s" and ?g = "h ! djh_gamma0 s"
    let ?h1 = "h @ [np_dot ?a ?a]"
    let ?g1 = "np_add ?g (np_dot (np_dot ?a ?g) (np_T ?a))"
    let ?h2 = "?h1 @ [?g1]"
    from "1.prems"(1) have ok: "djh_alpha0 s < length h" "djh_gamma0 s < length h"
      by (simp_all add: dj_refs_ok_def)
    have rd: "?h1 ! djh_alpha0 s = ?a" "?h1 ! djh_gamma0 s = ?g" "?h2 ! djh_gamma0 s = ?g"
      "?h2 ! Suc (length h) = ?g1" "?h2 ! length h = np_dot ?a ?a"
      using ok by (simp_all add: nth_append)
    have T': "dj_diff (dj_abs h s) > dj_tol" using True by (simp add: dj_abs_def)
    note unf = doublej_while_unfold [OF T']
    have sel: "dj_alpha0 (dj_abs h s) = ?a" "dj_gamma0 (dj_abs h s) = ?g"
      "dj_n_its (dj_abs h s) = djh_n_its s"
      by (simp_all add: dj_abs_def)
    show ?thesis
    proof (cases "np_max (np_abs (np_sub ?g1 ?g))")
      case (Inl e)
      have "doublej_while_h max_it h s = (Inl e, ?h2)"
        using True Inl rd by (simp add: doublej_while_h.simps [of max_it h s] new_array_def)
      moreover have "doublej_while max_it (dj_abs h s) = Inl e"
        unfolding unf sel using Inl by simp
      ultimately show ?thesis using "1.prems"(2) by auto
    next
      case (Inr d)
      let ?s' = "\<lparr>djh_alpha0 = length h, djh_gamma0 = Suc (length h), djh_diff = d,
                  djh_n_its = djh_n_its s + 1, djh_gamma1 = Some (Suc (length h))\<rparr>"
      show ?thesis
      proof (cases "djh_n_its s + 1 > max_it")
        case over: True
        let ?e = "ValueError (''Exceeded maximum iterations of '' @ str_int max_it
                                @ ''.'' @ '' Check your input matrices'')"
        have "doublej_while_h max_it h s = (Inl ?e, ?h2)"
          using True Inr over rd
          by (simp add: doublej_while_h.simps [of max_it h s] new_array_def Let_def)
        moreover have "doublej_while max_it (dj_abs h s) = Inl ?e"
          unfolding unf sel using Inr over by simp
        ultimately show ?thesis using "1.prems"(2) by auto
      next
        case under: False
        have eq: "doublej_while_h max_it h s = doublej_while_h max_it ?h2 ?s'"
          using True Inr under rd
          by (simp add: doublej_while_h.simps [of max_it h s] new_array_def Let_def)
        have ok': "dj_refs_ok ?h2 ?s'" by (simp add: dj_refs_ok_def)
        have abs': "dj_abs ?h2 ?s' = \<lparr>dj_alpha0 = np_dot ?a ?a, dj_gamma0 = ?g1, dj_diff = d,
              dj_n_its = djh_n_its s + 1, dj_gamma1 = Some ?g1\<rparr>"
          using rd by (simp add: dj_abs_def)
        have eqp: "doublej_while max_it (dj_abs h s) = doublej_while max_it (dj_abs ?h2 ?s')"
          unfolding unf sel abs' using Inr under by simp
        have IH: "(\<exists>ys. h' = ?h2 @ ys)
            \<and> (case r of
                 Inl e \<Rightarrow> doublej_while max_it (dj_abs ?h2 ?s') = Inl e
               | Inr s'' \<Rightarrow> dj_refs_ok h' s''
                     \<and> doublej_while max_it (dj_abs ?h2 ?s') = Inr (dj_abs h' s''))"
        proof (rule "1.IH" [OF True _ _ _ _ _ ok'])
          show "(length h, ?h1) = new_array h (np_dot ?a ?a)" by (simp add: new_array_def)
          show "(Suc (length h), ?h2) = new_array ?h1 (np_add (?h1 ! djh_gamma0 s)
                 (np_dot (np_dot (?h1 ! djh_alpha0 s) (?h1 ! djh_gamma0 s))
                    (np_T (?h1 ! djh_alpha0 s))))"
            using rd by (simp add: new_array_def)
          show "np_max (np_abs (np_sub (?h2 ! Suc (length h)) (?h2 ! djh_gamma0 s))) = Inr d"
            using rd Inr by simp
          show "?s' = ?s'" ..
          show "\<not> max_it < djh_n_its ?s'" using under by simp
          show "doublej_while_h max_it ?h2 ?s' = (r, h')" using "1.prems"(2) eq by simp
        qed
        then show ?thesis unfolding eqp by auto
      qed
    qed
  qed
qed

lemma doublej_h_sim:
  assumes "a1 < length h" and "b1 < length h" and "doublej_h h a1 b1 max_it = (r, h')"
  shows "(\<exists>ys. h' = h @ ys) \<and> outcome h' r = doublej (h ! a1) (h ! b1) max_it"
proof -
  let ?s = "\<lparr>djh_alpha0 = a1, djh_gamma0 = b1, djh_diff = 5, djh_n_its = 1, djh_gamma1 = None\<rparr>"
  obtain r0 h0 where w: "doublej_while_h max_it h ?s = (r0, h0)" by (cases "doublej_while_h max_it h ?s")
  have ok: "dj_refs_ok h ?s" using assms(1,2) by (simp add: dj_refs_ok_def)
  have ab: "dj_abs h ?s = \<lparr>dj_alpha0 = h ! a1, dj_gamma0 = h ! b1, dj_diff = 5, dj_n_its = 1,
      dj_gamma1 = None\<rparr>"
    by (simp add: dj_abs_def)
  note sim = doublej_while_h_sim [OF ok w, unfolded ab]
  show ?thesis
  proof (cases r0)
    case (Inl e)
    with w assms(3) have "r = Inl e" "h' = h0" by (simp_all add: doublej_h_def)
    with sim Inl show ?thesis by (simp add: outcome_def doublej_def)
  next
    case (Inr s')
    show ?thesis
    proof (cases "djh_gamma1 s'")
      case None
      with Inr w assms(3) have "r = Inl (UnboundLocalError ''gamma1'')" "h' = h0"
        by (simp_all add: doublej_h_def)
      with sim Inr None show ?thesis by (simp add: outcome_def doublej_def dj_abs_def)
    next
      case (Some g)
      with Inr w assms(3) have "r = Inr g" "h' = h0" by (simp_all add: doublej_h_def)
      with sim Inr Some show ?thesis by (simp add: outcome_def doublej_def dj_abs_def)
    qed
  qed
qed

text \<open>
  Claim C9. \<^verbatim>\<open>doublej\<close> is deterministic: two calls with identical inputs give identical
  outputs or identical failures, and no hidden state is carried from one call to the next.
  On the store: a call leaves the arrays of its arguments as they were, and a second call
  with the same arguments, made on the store that the first call left, has the same outcome
  as the first, which is the outcome of the function on values.
\<close>

theorem doublej_deterministic:
  assumes "a1 < length h" and "b1 < length h"
    and "doublej_h h a1 b1 max_it = (r1, h1)"
    and "doublej_h h1 a1 b1 max_it = (r2, h2)"
  shows "h1 ! a1 = h ! a1 \<and> h1 ! b1 = h ! b1
       \<and> outcome h2 r2 = outcome h1 r1
       \<and> outcome h1 r1 = doublej (h ! a1) (h ! b1) max_it"
proof -
  from doublej_h_sim [OF assms(1,2,3)] obtain ys where
    h1: "h1 = h @ ys" and o1: "outcome h1 r1 = doublej (h ! a1) (h ! b1) max_it"
    by blast
  have same: "h1 ! a1 = h ! a1" "h1 ! b1 = h ! b1"
    using assms(1,2) by (simp_all add: h1 nth_append)
  have len: "a1 < length h1" "b1 < length h1" using assms(1,2) by (simp_all add: h1)
  from doublej_h_sim [OF len assms(4)]
  have o2: "outcome h2 r2 = doublej (h1 ! a1) (h1 ! b1) max_it" by blast
  show ?thesis using same o1 o2 by simp
qed

text \<open>
  Two calls on the store that holds \<open>a1 = 0\<close> at address 0 and \<open>b1 = 1\<close> at address 1. Each
  call allocates two arrays and returns the address of the second.
\<close>

lemma doublej_h_first:
  "doublej_h [[[0]], [[1]]] 0 1 50 = (Inr 3, [[[0]], [[1]], [[0]], [[1]]])"
  by (simp add: doublej_h_def doublej_while_h.simps new_array_def dj_tol_def np_defs Let_def)

lemma doublej_h_second:
  "doublej_h [[[0]], [[1]], [[0]], [[1]]] 0 1 50
     = (Inr 5, [[[0]], [[1]], [[0]], [[1]], [[0]], [[1]]])"
  by (simp add: doublej_h_def doublej_while_h.simps new_array_def dj_tol_def np_defs Let_def)

theorem doublej_deterministic_witness:
  "outcome [[[0]], [[1]], [[0]], [[1]], [[0]], [[1]]] (Inr 5)
     = outcome [[[0]], [[1]], [[0]], [[1]]] (Inr 3)
   \<and> outcome [[[0]], [[1]], [[0]], [[1]]] (Inr 3) = doublej [[0]] [[1]] 50"
  using doublej_deterministic [OF _ _ doublej_h_first doublej_h_second] by simp


subsection \<open>\<^verbatim>\<open>doubleo\<close>: one pass through the body\<close>

lemma doubleo_body_update:
  assumes "doubleo_body solve A C R v s = Inr s'"
  shows "riccati_update solve v (do_a0 s, do_b0 s, do_g0 s) = Inr (do_a0 s', do_b0 s', do_g0 s')"
  using assms
  by (auto simp: doubleo_body_def riccati_update_def bindE_Inr_iff Let_def)

lemma doubleo_body_gain:
  assumes "doubleo_body solve A C R v s = Inr s'"
  shows "\<exists>k1 k0. kalman_gain solve A C R (do_g0 s') = Inr k1
            \<and> kalman_gain solve A C R (do_g0 s) = Inr k0
            \<and> np_max (np_sub k1 k0) = Inr (do_dd s')
            \<and> do_k1 s' = Some k1 \<and> do_g1 s' = Some (do_g0 s')"
  using assms
  by (auto simp: doubleo_body_def kalman_gain_def bindE_Inr_iff Let_def)

lemma doubleo_iter_update:
  "doubleo_iter solve A C R v n s = Inr s' \<Longrightarrow>
   riccati_iter solve v n (do_a0 s, do_b0 s, do_g0 s) = Inr (do_a0 s', do_b0 s', do_g0 s')"
proof (induction n arbitrary: s)
  case 0
  then show ?case by simp
next
  case (Suc n)
  from Suc.prems obtain s1 where s1: "doubleo_body solve A C R v s = Inr s1"
    and r: "doubleo_iter solve A C R v n s1 = Inr s'"
    by (auto simp: bindE_Inr_iff)
  show ?case
    using doubleo_body_update [OF s1] Suc.IH [OF r] by (simp add: bindE_def)
qed

lemma doubleo_iter_bound:
  assumes "doubleo_iter solve A C R v n s = Inr s'" and "0 < n"
  shows "do_g1 s' = Some (do_g0 s') \<and> do_k1 s' \<noteq> None"
  using assms
proof (induction n arbitrary: s)
  case 0
  then show ?case by simp
next
  case (Suc n)
  from Suc.prems obtain s1 where s1: "doubleo_body solve A C R v s = Inr s1"
    and r: "doubleo_iter solve A C R v n s1 = Inr s'"
    by (auto simp: bindE_Inr_iff)
  show ?case
  proof (cases n)
    case 0
    with r have "s' = s1" by simp
    with doubleo_body_gain [OF s1] show ?thesis by auto
  next
    case (Suc m)
    then show ?thesis using Suc.IH [OF r] by simp
  qed
qed

subsection \<open>\<^verbatim>\<open>doubleo\<close>: the loop\<close>

lemma runs_on_0: "runs_on solve A C R v tol 0 s"
  by (simp add: runs_on_def)

lemma runs_on_guard:
  assumes "runs_on solve A C R v tol (Suc n) s"
  shows "do_dd s > tol"
proof -
  from assms have "\<exists>si. doubleo_iter solve A C R v 0 s = Inr si \<and> do_dd si > tol"
    unfolding runs_on_def by blast
  then show ?thesis by simp
qed

lemma runs_on_tail:
  assumes "runs_on solve A C R v tol (Suc n) s" and "doubleo_body solve A C R v s = Inr s1"
  shows "runs_on solve A C R v tol n s1"
  unfolding runs_on_def
proof (intro allI impI)
  fix i assume "i < n"
  then have "Suc i < Suc n" by simp
  with assms(1) obtain si where "doubleo_iter solve A C R v (Suc i) s = Inr si" "do_dd si > tol"
    unfolding runs_on_def by blast
  then show "\<exists>si. doubleo_iter solve A C R v i s1 = Inr si \<and> do_dd si > tol"
    using assms(2) by (auto simp: bindE_def)
qed

lemma runs_on_cons:
  assumes "do_dd s > tol" and "doubleo_body solve A C R v s = Inr s1"
    and "runs_on solve A C R v tol n s1"
  shows "runs_on solve A C R v tol (Suc n) s"
  unfolding runs_on_def
proof (intro allI impI)
  fix i assume i: "i < Suc n"
  show "\<exists>si. doubleo_iter solve A C R v i s = Inr si \<and> tol < do_dd si"
  proof (cases i)
    case 0
    then show ?thesis using assms(1) by simp
  next
    case (Suc j)
    with i have "j < n" by simp
    with assms(3) obtain sj where "doubleo_iter solve A C R v j s1 = Inr sj" "tol < do_dd sj"
      unfolding runs_on_def by blast
    then show ?thesis using Suc assms(2) by (simp add: bindE_def)
  qed
qed

lemma doubleo_while_stops:
  assumes "runs_on solve A C R v tol n s"
    and "doubleo_iter solve A C R v n s = Inr sn" and "\<not> do_dd sn > tol"
  shows "doubleo_while solve A C R v tol s = Some (Inr sn)"
  using assms
proof (induction n arbitrary: s)
  case 0
  then show ?case by (subst doubleo_while.simps) simp
next
  case (Suc n)
  from Suc.prems(2) obtain s1 where s1: "doubleo_body solve A C R v s = Inr s1"
    and r: "doubleo_iter solve A C R v n s1 = Inr sn"
    by (auto simp: bindE_Inr_iff)
  have dd: "do_dd s > tol" using Suc.prems(1) by (rule runs_on_guard)
  have ro: "runs_on solve A C R v tol n s1" using Suc.prems(1) s1 by (rule runs_on_tail)
  have "doubleo_while solve A C R v tol s = doubleo_while solve A C R v tol s1"
    using dd s1 by (subst doubleo_while.simps) simp
  then show ?case using Suc.IH [OF ro r Suc.prems(3)] by simp
qed

lemma doubleo_while_raises:
  assumes "runs_on solve A C R v tol n s"
    and "doubleo_iter solve A C R v n s = Inl e"
  shows "doubleo_while solve A C R v tol s = Some (Inl e)"
  using assms
proof (induction n arbitrary: s)
  case 0
  then show ?case by simp
next
  case (Suc n)
  have dd: "do_dd s > tol" using Suc.prems(1) by (rule runs_on_guard)
  show ?case
  proof (cases "doubleo_body solve A C R v s")
    case (Inl e')
    with Suc.prems(2) have "e' = e" by (simp add: bindE_def)
    with Inl dd show ?thesis by (subst doubleo_while.simps) simp
  next
    case (Inr s1)
    with Suc.prems(2) have r: "doubleo_iter solve A C R v n s1 = Inl e" by (simp add: bindE_def)
    have ro: "runs_on solve A C R v tol n s1" using Suc.prems(1) Inr by (rule runs_on_tail)
    have "doubleo_while solve A C R v tol s = doubleo_while solve A C R v tol s1"
      using dd Inr by (subst doubleo_while.simps) simp
    then show ?thesis using Suc.IH [OF ro r] by simp
  qed
qed

text \<open>Whenever the loop ends, it ends after some number of passes.\<close>

lemma doubleo_while_Some:
  assumes "doubleo_while solve A C R v tol s = Some r"
  shows "\<exists>n. stops_at solve A C R v tol n s r"
proof (rule doubleo_while.raw_induct
    [where P = "\<lambda>solve A C R v tol s r. \<exists>n. stops_at solve A C R v tol n s r", OF _ assms])
  fix f :: "solver \<Rightarrow> matrix \<Rightarrow> matrix \<Rightarrow> matrix \<Rightarrow> matrix \<Rightarrow> real \<Rightarrow> do_state
              \<Rightarrow> (error + do_state) option"
  fix solve A C R v tol s r
  assume IH: "\<And>solve A C R v tol s r. f solve A C R v tol s = Some r
                \<Longrightarrow> \<exists>n. stops_at solve A C R v tol n s r"
  assume eq: "(if tol < do_dd s
      then case doubleo_body solve A C R v s of Inl e \<Rightarrow> Some (Inl e)
           | Inr s' \<Rightarrow> f solve A C R v tol s'
      else Some (Inr s)) = Some r"
  show "\<exists>n. stops_at solve A C R v tol n s r"
  proof (cases "tol < do_dd s")
    case False
    with eq have "r = Inr s" by simp
    with False have "stops_at solve A C R v tol 0 s r"
      by (simp add: stops_at_def runs_on_def)
    then show ?thesis ..
  next
    case True
    show ?thesis
    proof (cases "doubleo_body solve A C R v s")
      case (Inl e)
      with True eq have "r = Inl e" by simp
      with True Inl have "stops_at solve A C R v tol (Suc 0) s r"
        by (simp add: stops_at_def runs_on_def bindE_def)
      then show ?thesis ..
    next
      case (Inr s1)
      with True eq have "f solve A C R v tol s1 = Some r" by simp
      from IH [OF this] obtain n where n: "stops_at solve A C R v tol n s1 r" ..
      then have "stops_at solve A C R v tol (Suc n) s r"
        using True Inr by (simp add: stops_at_def runs_on_cons bindE_def)
      then show ?thesis ..
    qed
  qed
qed

lemma doubleo_while_iff:
  "doubleo_while solve A C R v tol s = Some r \<longleftrightarrow> (\<exists>n. stops_at solve A C R v tol n s r)"
proof
  assume "doubleo_while solve A C R v tol s = Some r"
  then show "\<exists>n. stops_at solve A C R v tol n s r" by (rule doubleo_while_Some)
next
  assume "\<exists>n. stops_at solve A C R v tol n s r"
  then obtain n where n: "stops_at solve A C R v tol n s r" ..
  show "doubleo_while solve A C R v tol s = Some r"
  proof (cases r)
    case (Inl e)
    with n show ?thesis by (auto simp: stops_at_def intro: doubleo_while_raises)
  next
    case (Inr sn)
    with n show ?thesis by (auto simp: stops_at_def intro: doubleo_while_stops)
  qed
qed

lemma doubleo_while_None:
  assumes "\<forall>n. \<exists>sn. doubleo_iter solve A C R v n s = Inr sn \<and> do_dd sn > tol"
  shows "doubleo_while solve A C R v tol s = None"
proof (rule ccontr)
  assume "doubleo_while solve A C R v tol s \<noteq> None"
  then obtain r where "doubleo_while solve A C R v tol s = Some r" by auto
  then obtain n where "stops_at solve A C R v tol n s r" using doubleo_while_Some by blast
  with assms show False by (auto simp: stops_at_def split: sum.splits dest: spec [of _ n])
qed

text \<open>The result of \<^verbatim>\<open>doubleo\<close> in terms of the passes of its loop.\<close>

lemma doubleo_returns_iff:
  "doubleo solve A C Q R tol = Some (Inr (K, S)) \<longleftrightarrow>
     (\<exists>x n sn. solve R C = Inr x \<and> 0 < n
        \<and> stops_at solve A C R (np_eye (max (nrows A) (ncols A))) tol n
             (doubleo_init A C Q x) (Inr sn)
        \<and> do_k1 sn = Some K \<and> do_g1 sn = Some S)"
  (is "?L \<longleftrightarrow> ?R")
proof
  assume L: ?L
  then obtain x where x: "solve R C = Inr x"
    by (cases "solve R C") (simp_all add: doubleo_def)
  let ?v = "np_eye (max (nrows A) (ncols A))"
  from L x obtain sn where w: "doubleo_while solve A C R ?v tol (doubleo_init A C Q x) = Some (Inr sn)"
    and k: "do_k1 sn = Some K" and g: "do_g1 sn = Some S"
    by (auto simp: doubleo_def Let_def split: option.splits sum.splits)
  from w obtain n where n: "stops_at solve A C R ?v tol n (doubleo_init A C Q x) (Inr sn)"
    using doubleo_while_Some by blast
  have "0 < n"
  proof (rule ccontr)
    assume "\<not> 0 < n"
    then have "n = 0" by simp
    with n have "sn = doubleo_init A C Q x" by (simp add: stops_at_def)
    with k show False by (simp add: doubleo_init_def)
  qed
  with x n k g show ?R by blast
next
  assume ?R
  then obtain x n sn where x: "solve R C = Inr x"
    and n: "stops_at solve A C R (np_eye (max (nrows A) (ncols A))) tol n
              (doubleo_init A C Q x) (Inr sn)"
    and k: "do_k1 sn = Some K" and g: "do_g1 sn = Some S"
    by blast
  from n have "doubleo_while solve A C R (np_eye (max (nrows A) (ncols A))) tol
                 (doubleo_init A C Q x) = Some (Inr sn)"
    using doubleo_while_iff by blast
  with x k g show ?L by (simp add: doubleo_def Let_def)
qed

lemma doubleo_diverges:
  assumes "solve R C = Inr x"
    and "\<forall>n. \<exists>sn. doubleo_iter solve A C R (np_eye (max (nrows A) (ncols A))) n
                    (doubleo_init A C Q x) = Inr sn \<and> do_dd sn > tol"
  shows "doubleo solve A C Q R tol = None"
  using assms(1) doubleo_while_None [OF assms(2)] by (simp add: doubleo_def Let_def)


subsection \<open>\<^verbatim>\<open>doubleo\<close>: two scalar filters\<close>

text \<open>
  The filter \<open>A = 1/2\<close>, \<open>C = Q = R = 1\<close>: the first pass gives \<open>a = 1/8\<close>, \<open>b = g = 9/8\<close>, the
  gains \<open>k1 = 9/34\<close> and \<open>k0 = 1/4\<close>, and the metric \<open>1/68\<close>.
\<close>

lemma half_pass:
  "doubleo_body solve_small [[1 / 2]] [[1]] [[1]] [[1]] (doubleo_init [[1 / 2]] [[1]] [[1]] [[1]])
     = Inr \<lparr>do_a0 = [[1 / 8]], do_b0 = [[9 / 8]], do_g0 = [[9 / 8]], do_dd = 1 / 68,
            do_k1 = Some [[9 / 34]], do_g1 = Some [[9 / 8]]\<rparr>"
  by (simp add: doubleo_body_def doubleo_init_def solve_small_def np_defs Let_def)

lemma half_returns:
  "doubleo solve_small [[1 / 2]] [[1]] [[1]] [[1]] (1 / 50) = Some (Inr ([[9 / 34]], [[9 / 8]]))"
proof -
  let ?s0 = "doubleo_init [[1 / 2]] [[1]] [[1]] [[1]]"
  let ?s1 = "\<lparr>do_a0 = [[1 / 8]], do_b0 = [[9 / 8]], do_g0 = [[9 / 8]], do_dd = 1 / 68,
            do_k1 = Some [[9 / 34]], do_g1 = Some [[9 / 8]]\<rparr>"
  have "doubleo_while solve_small [[1 / 2]] [[1]] [[1]] [[1]] (1 / 50) ?s0
      = doubleo_while solve_small [[1 / 2]] [[1]] [[1]] [[1]] (1 / 50) ?s1"
    by (subst doubleo_while.simps) (simp add: half_pass, simp add: doubleo_init_def)
  also have "\<dots> = Some (Inr ?s1)"
    by (subst doubleo_while.simps) simp
  finally show ?thesis
    by (simp add: doubleo_def solve_small_def nrows_def ncols_def)
qed

text \<open>
  The filter \<open>A = 0\<close>, \<open>C = Q = R = 1\<close>: the first pass reaches a state that the body maps to
  itself, with the metric \<open>0\<close>.
\<close>

lemma zero_pass:
  "doubleo_body solve_small [[0]] [[1]] [[1]] [[1]] (doubleo_init [[0]] [[1]] [[1]] [[1]])
     = Inr \<lparr>do_a0 = [[0]], do_b0 = [[1]], do_g0 = [[1]], do_dd = 0,
            do_k1 = Some [[0]], do_g1 = Some [[1]]\<rparr>"
  by (simp add: doubleo_body_def doubleo_init_def solve_small_def np_defs Let_def)

lemma zero_fixed:
  "doubleo_body solve_small [[0]] [[1]] [[1]] [[1]]
     \<lparr>do_a0 = [[0]], do_b0 = [[1]], do_g0 = [[1]], do_dd = 0,
      do_k1 = Some [[0]], do_g1 = Some [[1]]\<rparr>
     = Inr \<lparr>do_a0 = [[0]], do_b0 = [[1]], do_g0 = [[1]], do_dd = 0,
            do_k1 = Some [[0]], do_g1 = Some [[1]]\<rparr>"
  by (simp add: doubleo_body_def solve_small_def np_defs Let_def)

lemma zero_iter_fixed:
  "doubleo_iter solve_small [[0]] [[1]] [[1]] [[1]] n
     \<lparr>do_a0 = [[0]], do_b0 = [[1]], do_g0 = [[1]], do_dd = 0,
      do_k1 = Some [[0]], do_g1 = Some [[1]]\<rparr>
     = Inr \<lparr>do_a0 = [[0]], do_b0 = [[1]], do_g0 = [[1]], do_dd = 0,
            do_k1 = Some [[0]], do_g1 = Some [[1]]\<rparr>"
  by (induction n) (simp_all add: zero_fixed bindE_def)

lemma zero_iter:
  "doubleo_iter solve_small [[0]] [[1]] [[1]] [[1]] (Suc n) (doubleo_init [[0]] [[1]] [[1]] [[1]])
     = Inr \<lparr>do_a0 = [[0]], do_b0 = [[1]], do_g0 = [[1]], do_dd = 0,
            do_k1 = Some [[0]], do_g1 = Some [[1]]\<rparr>"
  by (simp add: zero_pass zero_iter_fixed bindE_def)

text \<open>
  The filter \<open>A = C = R = 1\<close> with \<open>Q = -1/4\<close>: the first pass gives the gains \<open>k1 = -7/5\<close> and
  \<open>k0 = -1/3\<close>, which are far apart, and the signed metric \<open>-16/15\<close>.
\<close>

lemma negative_pass:
  "doubleo_body solve_small [[1]] [[1]] [[1]] [[1]] (doubleo_init [[1]] [[1]] [[- (1 / 4)]] [[1]])
     = Inr \<lparr>do_a0 = [[4 / 3]], do_b0 = [[7 / 3]], do_g0 = [[- (7 / 12)]], do_dd = - (16 / 15),
            do_k1 = Some [[- (7 / 5)]], do_g1 = Some [[- (7 / 12)]]\<rparr>"
  by (simp add: doubleo_body_def doubleo_init_def solve_small_def np_defs Let_def)

subsection \<open>\<^verbatim>\<open>doubleo\<close>: the claims\<close>

text \<open>
  Claim C3. \<^verbatim>\<open>doubleo\<close> starts from \<open>a0 = A\<^sup>T\<close>, \<open>b0 = C\<^sup>T\<cdot>solve(R, C)\<close>, \<open>g0 = Q\<close>, and every
  iteration updates \<open>a1 = a0\<cdot>(I + b0\<cdot>g0)\<^sup>-\<^sup>1\<cdot>a0\<close>, \<open>b1 = b0 + a0\<cdot>(I + b0\<cdot>g0)\<^sup>-\<^sup>1\<cdot>(b0\<cdot>a0\<^sup>T)\<close> and
  \<open>g1 = g0 + (a0\<^sup>T\<cdot>g0)\<cdot>(I + b0\<cdot>g0)\<^sup>-\<^sup>1\<cdot>a0\<close>, each inverse being a linear solve. First part: the
  variables \<open>a0, b0, g0\<close> after \<open>n\<close> passes of the loop body, started where lines 116 to 119
  leave them (\<open>x\<close> is what \<^verbatim>\<open>solve(R, C)\<close> returned), are the \<open>n\<close>-th iterate of the update of the
  specification started at \<open>(A\<^sup>T, C\<^sup>T\<cdot>x, Q)\<close>. Second part: a covariance that \<^verbatim>\<open>doubleo\<close> returns
  is the third component of such an iterate, with \<open>I\<close> the identity of order \<^verbatim>\<open>max(A.shape)\<close>.
\<close>

theorem doubleo_riccati_recursion:
  "(doubleo_iter solve A C R v n (doubleo_init A C Q x) = Inr s \<longrightarrow>
      riccati_iter solve v n (np_T A, np_dot (np_T C) x, Q) = Inr (do_a0 s, do_b0 s, do_g0 s))
   \<and> (doubleo solve A C Q R tol = Some (Inr (K, S)) \<longrightarrow>
      (\<exists>x n a b. solve R C = Inr x \<and> 0 < n
         \<and> riccati_iter solve (np_eye (max (nrows A) (ncols A))) n
              (np_T A, np_dot (np_T C) x, Q) = Inr (a, b, S)))"
proof (intro conjI impI)
  assume "doubleo_iter solve A C R v n (doubleo_init A C Q x) = Inr s"
  from doubleo_iter_update [OF this]
  show "riccati_iter solve v n (np_T A, np_dot (np_T C) x, Q) = Inr (do_a0 s, do_b0 s, do_g0 s)"
    by (simp add: doubleo_init_def)
next
  let ?v = "np_eye (max (nrows A) (ncols A))"
  assume "doubleo solve A C Q R tol = Some (Inr (K, S))"
  then obtain x n sn where x: "solve R C = Inr x" and n: "0 < n"
    and st: "stops_at solve A C R ?v tol n (doubleo_init A C Q x) (Inr sn)"
    and g: "do_g1 sn = Some S"
    unfolding doubleo_returns_iff by blast
  from st have it: "doubleo_iter solve A C R ?v n (doubleo_init A C Q x) = Inr sn"
    by (simp add: stops_at_def)
  from doubleo_iter_bound [OF it n] g have "do_g0 sn = S" by simp
  with doubleo_iter_update [OF it]
  have "riccati_iter solve ?v n (np_T A, np_dot (np_T C) x, Q) = Inr (do_a0 sn, do_b0 sn, S)"
    by (simp add: doubleo_init_def)
  with x n show "\<exists>x n a b. solve R C = Inr x \<and> 0 < n
         \<and> riccati_iter solve ?v n (np_T A, np_dot (np_T C) x, Q) = Inr (a, b, S)"
    by blast
qed

theorem doubleo_riccati_recursion_witness:
  "riccati_iter solve_small [[1]] 1 (np_T [[1 / 2]], np_dot (np_T [[1]]) [[1]], [[1]])
     = Inr ([[1 / 8]], [[9 / 8]], [[9 / 8]])
   \<and> (\<exists>x n a b. solve_small [[1]] [[1]] = Inr x \<and> 0 < n
         \<and> riccati_iter solve_small (np_eye (max (nrows [[1 / 2]]) (ncols [[1 / 2]]))) n
              (np_T [[1 / 2]], np_dot (np_T [[1]]) x, [[1]]) = Inr (a, b, [[9 / 8]]))"
proof -
  let ?s1 = "\<lparr>do_a0 = [[1 / 8]], do_b0 = [[9 / 8]], do_g0 = [[9 / 8]], do_dd = 1 / 68,
            do_k1 = Some [[9 / 34]], do_g1 = Some [[9 / 8]]\<rparr>"
  have it: "doubleo_iter solve_small [[1 / 2]] [[1]] [[1]] [[1]] 1
              (doubleo_init [[1 / 2]] [[1]] [[1]] [[1]]) = Inr ?s1"
    by (simp add: half_pass bindE_def)
  note t = doubleo_riccati_recursion [of solve_small "[[1 / 2]]" "[[1]]" "[[1]]" "[[1]]" 1
      "[[1]]" "[[1]]" ?s1 "1 / 50" "[[9 / 34]]" "[[9 / 8]]"]
  from t it have "riccati_iter solve_small [[1]] 1 (np_T [[1 / 2]], np_dot (np_T [[1]]) [[1]], [[1]])
     = Inr (do_a0 ?s1, do_b0 ?s1, do_g0 ?s1)"
    by blast
  moreover from t half_returns
  have "\<exists>x n a b. solve_small [[1]] [[1]] = Inr x \<and> 0 < n
         \<and> riccati_iter solve_small (np_eye (max (nrows [[1 / 2]]) (ncols [[1 / 2]]))) n
              (np_T [[1 / 2]], np_dot (np_T [[1]]) x, [[1]]) = Inr (a, b, [[9 / 8]])"
    by blast
  ultimately show ?thesis by simp
qed

text \<open>
  Claim C4. In every iteration the candidate gains are
  \<open>k1 = A\<cdot>g1\<cdot>solve(C\<cdot>g1\<^sup>T\<cdot>C\<^sup>T + R\<^sup>T, C)\<^sup>T\<close> and \<open>k0\<close>, the same formula on the \<open>g0\<close> from before
  the update; the loop ends exactly when the signed metric \<open>max (k1 - k0)\<close>, without absolute
  value, is at most \<open>tol\<close>; there is no iteration cap; the returned pair is \<open>(k1, g1)\<close>, the gain
  and covariance computed last. First part: a pass of the body computes these two gains, sets
  \<^verbatim>\<open>dd\<close> to the largest entry of their difference, and binds \<^verbatim>\<open>k1\<close> and \<^verbatim>\<open>g1\<close> to the new gain and
  the new covariance. Second part: the call returns \<open>(K, S)\<close> if and only if there is a number
  \<open>n \<ge> 1\<close> of passes such that \<^verbatim>\<open>dd > tol\<close> held before each of them and fails after the last,
  and \<open>K, S\<close> are what the last pass bound to \<^verbatim>\<open>k1, g1\<close>. Third part: when \<^verbatim>\<open>dd > tol\<close> holds
  after every number of passes, the call never returns.
\<close>

theorem doubleo_signed_metric_loop:
  "(doubleo_body solve A C R v s = Inr s' \<longrightarrow>
      (\<exists>k1 k0. kalman_gain solve A C R (do_g0 s') = Inr k1
            \<and> kalman_gain solve A C R (do_g0 s) = Inr k0
            \<and> np_max (np_sub k1 k0) = Inr (do_dd s')
            \<and> do_k1 s' = Some k1 \<and> do_g1 s' = Some (do_g0 s')))
   \<and> (doubleo solve A C Q R tol = Some (Inr (K, S)) \<longleftrightarrow>
        (\<exists>x n sn. solve R C = Inr x \<and> 0 < n
           \<and> stops_at solve A C R (np_eye (max (nrows A) (ncols A))) tol n
                (doubleo_init A C Q x) (Inr sn)
           \<and> do_k1 sn = Some K \<and> do_g1 sn = Some S))
   \<and> (solve R C = Inr x
        \<and> (\<forall>n. \<exists>sn. doubleo_iter solve A C R (np_eye (max (nrows A) (ncols A))) n
                       (doubleo_init A C Q x) = Inr sn \<and> do_dd sn > tol)
      \<longrightarrow> doubleo solve A C Q R tol = None)"
proof (intro conjI impI)
  assume "doubleo_body solve A C R v s = Inr s'"
  then show "\<exists>k1 k0. kalman_gain solve A C R (do_g0 s') = Inr k1
            \<and> kalman_gain solve A C R (do_g0 s) = Inr k0
            \<and> np_max (np_sub k1 k0) = Inr (do_dd s')
            \<and> do_k1 s' = Some k1 \<and> do_g1 s' = Some (do_g0 s')"
    by (rule doubleo_body_gain)
next
  show "doubleo solve A C Q R tol = Some (Inr (K, S)) \<longleftrightarrow>
        (\<exists>x n sn. solve R C = Inr x \<and> 0 < n
           \<and> stops_at solve A C R (np_eye (max (nrows A) (ncols A))) tol n
                (doubleo_init A C Q x) (Inr sn)
           \<and> do_k1 sn = Some K \<and> do_g1 sn = Some S)"
    by (rule doubleo_returns_iff)
next
  assume "solve R C = Inr x
        \<and> (\<forall>n. \<exists>sn. doubleo_iter solve A C R (np_eye (max (nrows A) (ncols A))) n
                       (doubleo_init A C Q x) = Inr sn \<and> do_dd sn > tol)"
  then show "doubleo solve A C Q R tol = None"
    using doubleo_diverges by blast
qed

text \<open>
  On the filter with \<open>Q = -1/4\<close> and \<open>tol = 0\<close> the call returns after one pass, because the
  signed metric \<open>-16/15\<close> is below \<open>tol\<close>. On the filter \<open>A = 0\<close> the metric of every pass is
  \<open>0\<close>, and with \<open>tol = -1\<close> the call runs forever.
\<close>

theorem doubleo_signed_metric_loop_witness:
  "doubleo solve_small [[1]] [[1]] [[- (1 / 4)]] [[1]] 0
     = Some (Inr ([[- (7 / 5)]], [[- (7 / 12)]]))
   \<and> doubleo solve_small [[0]] [[1]] [[1]] [[1]] (- 1) = None"
proof -
  let ?n0 = "doubleo_init [[1]] [[1]] [[- (1 / 4)]] [[1]]"
  let ?n1 = "\<lparr>do_a0 = [[4 / 3]], do_b0 = [[7 / 3]], do_g0 = [[- (7 / 12)]], do_dd = - (16 / 15),
            do_k1 = Some [[- (7 / 5)]], do_g1 = Some [[- (7 / 12)]]\<rparr>"
  let ?s0 = "doubleo_init [[0]] [[1]] [[1]] [[1]]"
  let ?s1 = "\<lparr>do_a0 = [[0]], do_b0 = [[1]], do_g0 = [[1]], do_dd = 0,
            do_k1 = Some [[0]], do_g1 = Some [[1]]\<rparr>"
  have v: "np_eye (max (nrows [[0]]) (ncols [[0]])) = [[1]]"
    "np_eye (max (nrows [[1]]) (ncols [[1]])) = [[1]]"
    by (simp_all add: nrows_def ncols_def)
  have x: "solve_small [[1]] [[1]] = Inr [[1]]" by (simp add: solve_small_def)
  have st: "stops_at solve_small [[1]] [[1]] [[1]] [[1]] 0 (Suc 0) ?n0 (Inr ?n1)"
    unfolding stops_at_def runs_on_def
    by (simp add: negative_pass bindE_def) (simp add: doubleo_init_def)
  have ret: "\<exists>x n sn. solve_small [[1]] [[1]] = Inr x \<and> 0 < n
           \<and> stops_at solve_small [[1]] [[1]] [[1]]
                (np_eye (max (nrows [[1]]) (ncols [[1]]))) 0 n
                (doubleo_init [[1]] [[1]] [[- (1 / 4)]] x) (Inr sn)
           \<and> do_k1 sn = Some [[- (7 / 5)]] \<and> do_g1 sn = Some [[- (7 / 12)]]"
    unfolding v using x st by (intro exI [of _ "[[1]]"] exI [of _ "Suc 0"] exI [of _ ?n1]) simp
  have run: "\<forall>n. \<exists>sn. doubleo_iter solve_small [[0]] [[1]] [[1]]
                (np_eye (max (nrows [[0]]) (ncols [[0]]))) n ?s0 = Inr sn \<and> do_dd sn > - 1"
    unfolding v
  proof
    fix n
    show "\<exists>sn. doubleo_iter solve_small [[0]] [[1]] [[1]] [[1]] n ?s0 = Inr sn \<and> do_dd sn > - 1"
    proof (cases n)
      case 0
      then show ?thesis by (simp add: doubleo_init_def)
    next
      case (Suc m)
      then show ?thesis by (simp add: zero_iter del: doubleo_iter.simps)
    qed
  qed
  note a = doubleo_signed_metric_loop [of solve_small "[[1]]" "[[1]]" "[[1]]" "[[1]]" ?n0 ?n1
      "[[- (1 / 4)]]" 0 "[[- (7 / 5)]]" "[[- (7 / 12)]]" "[[1]]"]
  note b = doubleo_signed_metric_loop [of solve_small "[[0]]" "[[1]]" "[[1]]" "[[1]]" ?s0 ?s1
      "[[1]]" "- 1" "[[0]]" "[[1]]" "[[1]]"]
  from a ret
  have "doubleo solve_small [[1]] [[1]] [[- (1 / 4)]] [[1]] 0
          = Some (Inr ([[- (7 / 5)]], [[- (7 / 12)]]))"
    by blast
  moreover from b x run have "doubleo solve_small [[0]] [[1]] [[1]] [[1]] (- 1) = None"
    by blast
  ultimately show ?thesis ..
qed

text \<open>
  Claim C10. For every \<open>tol \<ge> 1\<close>, \<^verbatim>\<open>doubleo\<close> never returns a result: \<^verbatim>\<open>dd\<close> starts at \<open>1\<close>, so
  the guard \<^verbatim>\<open>dd > tol\<close> is false before any iteration, \<^verbatim>\<open>k1\<close> and \<^verbatim>\<open>g1\<close> are bound only inside
  the loop body, and the call fails with an unbound-variable error at the \<^verbatim>\<open>return\<close>. As
  stated this fails where \<^verbatim>\<open>solve(R, C)\<close> on line 117 raises first: with the singular \<open>R = 0\<close>
  the call fails with the solver's error and never reaches the \<^verbatim>\<open>return\<close>.
\<close>

theorem doubleo_large_tol_singular_R:
  "(1::real) \<le> 1
   \<and> doubleo solve_small [[1]] [[1]] [[1]] [[0]] 1 = Some (Inl (LinAlgError ''Matrix is singular.''))
   \<and> doubleo solve_small [[1]] [[1]] [[1]] [[0]] 1 \<noteq> Some (Inl (UnboundLocalError ''k1''))"
  by (simp add: doubleo_def solve_small_def)

text \<open>
  Claim C10, amended. For every \<open>tol \<ge> 1\<close>, \<^verbatim>\<open>doubleo\<close> never returns a result: the loop body
  is never entered, and the call fails with the error of \<^verbatim>\<open>solve(R, C)\<close> when that solve
  raises, and with the unbound-variable error for \<^verbatim>\<open>k1\<close> at the \<^verbatim>\<open>return\<close> otherwise.
\<close>

theorem doubleo_large_tol_never_returns:
  assumes "1 \<le> tol"
  shows "doubleo solve A C Q R tol =
     Some (case solve R C of Inl e \<Rightarrow> Inl e | Inr x \<Rightarrow> Inl (UnboundLocalError ''k1''))"
  using assms
  by (simp add: doubleo_def Let_def doubleo_while.simps doubleo_init_def split: sum.splits)

theorem doubleo_large_tol_never_returns_witness:
  "(1::real) \<le> 1
   \<and> doubleo solve_small [[1 / 2]] [[1]] [[1]] [[1]] 1 = Some (Inl (UnboundLocalError ''k1''))"
  using doubleo_large_tol_never_returns [of 1 solve_small "[[1 / 2]]" "[[1]]" "[[1]]" "[[1]]"]
  by (simp add: solve_small_def)


subsection \<open>\<^verbatim>\<open>olrp\<close>: branch selection\<close>

lemma zero_returns:
  assumes "0 \<le> tol" and "tol < 1"
  shows "doubleo solve_small [[0]] [[1]] [[1]] [[1]] tol = Some (Inr ([[0]], [[1]]))"
proof -
  let ?s0 = "doubleo_init [[0]] [[1]] [[1]] [[1]]"
  let ?s1 = "\<lparr>do_a0 = [[0]], do_b0 = [[1]], do_g0 = [[1]], do_dd = 0,
            do_k1 = Some [[0]], do_g1 = Some [[1]]\<rparr>"
  have "doubleo_while solve_small [[0]] [[1]] [[1]] [[1]] tol ?s0
      = doubleo_while solve_small [[0]] [[1]] [[1]] [[1]] tol ?s1"
    using assms(2) by (subst doubleo_while.simps) (simp add: zero_pass, simp add: doubleo_init_def)
  also have "\<dots> = Some (Inr ?s1)"
    using assms(1) by (subst doubleo_while.simps) simp
  finally show ?thesis
    by (simp add: doubleo_def solve_small_def nrows_def ncols_def)
qed

text \<open>
  Claim C5. Whenever the largest eigenvalue modulus of \<open>R\<close> exceeds \<open>1e-5\<close>, \<^verbatim>\<open>olrp\<close> takes the
  first branch: it forms \<open>A~ = \<surd>beta\<cdot>(A - B\<cdot>solve(R, W\<^sup>T))\<close>, \<open>B~ = \<surd>beta\<cdot>B\<close> and
  \<open>Q~ = Q - W\<cdot>solve(R, W\<^sup>T)\<close>, calls \<^verbatim>\<open>doubleo(A~.T, B~.T, Q~, R)\<close>, and returns
  \<open>F = K\<^sup>T + solve(R, W\<^sup>T)\<close> and \<open>P = S\<close> for the doubler's result \<open>(K, S)\<close>. Here \<open>ev\<close> is the
  list of eigenvalues that \<^verbatim>\<open>eig(R)\<close> returns, \<open>mx\<close> the largest of their moduli, and an omitted
  \<open>W\<close> is the zero matrix with \<^verbatim>\<open>max(A.shape)\<close> rows and as many columns as \<open>B\<close>.
\<close>

theorem olrp_primary_branch:
  assumes "eig R = Inr ev" and "np_max1 (map cmod ev) = Inr mx" and "mx > 1 / 10 ^ 5"
  shows "olrp solve eig beta A B Q R W_arg tol max_iter =
     regulator_by_duality solve beta A B Q R
       (case W_arg of None \<Rightarrow> np_zeros (max (nrows A) (ncols A)) (ncols B) | Some w \<Rightarrow> w)"
  using assms
  by (auto simp: olrp_def regulator_by_duality_def Let_def bindE_def
      split: sum.splits option.splits prod.splits)

theorem olrp_primary_branch_witness:
  "olrp solve_small eig_diag 1 [[1]] [[1]] [[2]] [[1]] (Some [[1]]) (1 / 1000000) 1000
     = Some (Inr ([[1]], [[1]]))"
proof -
  have e: "eig_diag [[1]] = Inr [1]" by (simp add: eig_diag_def)
  have m: "np_max1 (map cmod [1]) = Inr 1" by (simp add: np_max1_def)
  have g: "(1::real) > 1 / 10 ^ 5" by simp
  have r: "regulator_by_duality solve_small 1 [[1]] [[1]] [[2]] [[1]] [[1]]
      = Some (Inr ([[1]], [[1]]))"
    by (simp add: regulator_by_duality_def py_sqrt_def solve_small_def np_defs zero_returns)
  show ?thesis
    using olrp_primary_branch [where eig = eig_diag and R = "[[1]]" and ev = "[1]" and mx = 1
        and solve = solve_small and beta = 1 and A = "[[1]]" and B = "[[1]]" and Q = "[[2]]"
        and W_arg = "Some [[1]]" and tol = "1 / 1000000" and max_iter = 1000, OF e m g] r
    by simp
qed

text \<open>
  Claim C7. With \<^verbatim>\<open>max_iter = 0\<close> on inputs that select the second branch, \<^verbatim>\<open>olrp\<close> raises the
  iteration-limit error that names \<^verbatim>\<open>max_iter\<close> at once, without any linear solve in the loop
  body: the result is the same whatever the solver would do.
\<close>

theorem olrp_zero_max_iter:
  assumes "eig R = Inr ev" and "np_max1 (map cmod ev) = Inr mx" and "mx \<le> 1 / 10 ^ 5"
  shows "olrp solve eig beta A B Q R W_arg tol 0 =
    Some (Inl (ValueError ''No convergence: Iteration limit of 0 reached in OLRP''))"
  using assms
  by (simp add: olrp_def olrp_value_iteration_def Let_def bindE_def str_int_def)

text \<open>The same with a solver that raises on every system.\<close>

theorem olrp_zero_max_iter_witness:
  "olrp (\<lambda>M N. Inl (LinAlgError ''Matrix is singular.'')) eig_diag 1 [[1]] [[1]] [[1]] [[0]] None
      (1 / 1000000) 0
     = Some (Inl (ValueError ''No convergence: Iteration limit of 0 reached in OLRP''))"
proof -
  have e: "eig_diag [[0]] = Inr [0]" by (simp add: eig_diag_def)
  have m: "np_max1 (map cmod [0]) = Inr 0" by (simp add: np_max1_def)
  have g: "(0::real) \<le> 1 / 10 ^ 5" by simp
  show ?thesis
    by (rule olrp_zero_max_iter [where eig = eig_diag and R = "[[0]]" and ev = "[0]" and mx = 0,
          OF e m g])
qed

subsection \<open>\<^verbatim>\<open>olrp\<close>: the test that leaves the value iteration\<close>

lemma fallback_pass:
  "olrp_for solve_small 1 [[1]] [[1]] [[1]] [[0]] [[1]] (1 / 1000000) (Suc n) [[- (1 / 10)]]
     = Inr (Some ([[10 / 9]], [[9]]))"
  by (simp add: solve_small_def np_defs Let_def)

lemma fallback_fixed:
  "olrp_for solve_small 1 [[1]] [[1]] [[1]] [[0]] [[0]] (1 / 1000000) n [[1]] = Inr None"
  by (induction n) (simp_all add: solve_small_def np_defs Let_def)

lemma fallback_exhausts:
  "olrp_for solve_small 1 [[1]] [[1]] [[1]] [[0]] [[0]] (1 / 1000000) (Suc n) [[- (1 / 10)]]
     = Inr None"
  by (simp add: solve_small_def np_defs Let_def fallback_fixed)

text \<open>
  Claim C1. In the second branch the loop stops and returns \<open>(F1, P1)\<close> as soon as the metric
  \<open>max (F1 - F0)\<close> is at most \<open>tol\<close>, raises the iteration-limit error exactly when \<^verbatim>\<open>max_iter\<close>
  iterations pass without that, and never returns a pair that has not converged. The program
  tests \<^verbatim>\<open>if dd > tol: break\<close>, the opposite. With \<open>beta = A = B = Q = W = 1\<close> and \<open>R = 0\<close> the
  first pass has \<open>F0 = -9\<close>, \<open>F1 = 10/9\<close> and the metric \<open>91/9\<close>, and the call returns
  \<open>(10/9, 9)\<close> at once. With \<open>W\<close> omitted every pass has \<open>F0 = F1 = 1\<close> and the metric \<open>0\<close>, and
  the call raises after 1000 passes.
\<close>

theorem olrp_break_on_large_metric:
  "olrp solve_small eig_diag 1 [[1]] [[1]] [[1]] [[0]] (Some [[1]]) (1 / 1000000) 1000
     = Some (Inr ([[10 / 9]], [[9]]))
   \<and> olrp solve_small eig_diag 1 [[1]] [[1]] [[1]] [[0]] None (1 / 1000000) 1000
     = Some (Inl (ValueError ''No convergence: Iteration limit of 1000 reached in OLRP''))"
proof -
  have d: "str_int 1000 = ''1000''" by (simp add: str_int_def)
  have a: "olrp_for solve_small 1 [[1]] [[1]] [[1]] [[0]] [[1]] (1 / 1000000) 1000 [[- (1 / 10)]]
     = Inr (Some ([[10 / 9]], [[9]]))"
    using fallback_pass [of 999] by simp
  have b: "olrp_for solve_small 1 [[1]] [[1]] [[1]] [[0]] [[0]] (1 / 1000000) 1000 [[- (1 / 10)]]
     = Inr None"
    using fallback_exhausts [of 999] by simp
  show ?thesis
    by (simp add: olrp_def olrp_value_iteration_def eig_diag_def np_defs Let_def a b d)
qed


subsection \<open>\<^verbatim>\<open>olrp\<close>: the linear systems of the second branch\<close>

text \<open>The record of solves does not change what is computed, and it only grows.\<close>

lemma olrp_for_log_erase:
  "fst (olrp_for_log solve beta A B Q R W tol n p0 calls) = olrp_for solve beta A B Q R W tol n p0"
  by (induction n arbitrary: p0 calls)
     (simp_all add: solve_logged_def bindE_def Let_def split: sum.splits)

lemma olrp_for_log_extends:
  "\<exists>ys. snd (olrp_for_log solve beta A B Q R W tol n p0 calls) = calls @ ys"
proof (induction n arbitrary: p0 calls)
  case 0
  then show ?case by simp
next
  case (Suc n)
  let ?s0 = "riccati_system beta A B R W p0"
  show ?case
  proof (cases "solve (fst ?s0) (snd ?s0)")
    case (Inl e)
    then show ?thesis by (simp add: solve_logged_def riccati_system_def)
  next
    case f0: (Inr f0)
    let ?p1 = "bellman_update beta A B Q W p0 f0"
    let ?s1 = "riccati_system beta A B R W ?p1"
    show ?thesis
    proof (cases "solve (fst ?s1) (snd ?s1)")
      case (Inl e)
      with f0 show ?thesis
        by (simp add: solve_logged_def riccati_system_def bellman_update_def Let_def)
    next
      case f1: (Inr f1)
      show ?thesis
      proof (cases "np_max (np_sub f1 f0)")
        case (Inl e)
        with f0 f1 show ?thesis
          by (simp add: solve_logged_def riccati_system_def bellman_update_def Let_def)
      next
        case (Inr dd)
        from Suc.IH [of ?p1 "calls @ [?s0, ?s1]"] obtain ys where
          "snd (olrp_for_log solve beta A B Q R W tol n ?p1 (calls @ [?s0, ?s1]))
             = (calls @ [?s0, ?s1]) @ ys" ..
        with f0 f1 Inr show ?thesis
          by (simp add: solve_logged_def riccati_system_def bellman_update_def Let_def)
      qed
    qed
  qed
qed

lemma olrp_log_erase:
  "map_option fst (olrp_log solve eig beta A B Q R W_arg tol max_iter)
     = olrp solve eig beta A B Q R W_arg tol max_iter"
proof -
  have fb: "\<And>W p0. (case olrp_for_log solve beta A B Q R W tol (nat max_iter) p0 [] of
                    (Inl e, calls) \<Rightarrow> Inl e
                  | (Inr None, calls) \<Rightarrow>
                      Inl (ValueError (''No convergence: Iteration limit of ''
                                   @ str_int max_iter @ '' reached in OLRP''))
                  | (Inr (Some (f1, p1)), calls) \<Rightarrow> Inr (f1, p1))
        = olrp_value_iteration solve beta A B Q R W tol max_iter p0"
  proof -
    fix W p0
    obtain r cs where rc: "olrp_for_log solve beta A B Q R W tol (nat max_iter) p0 [] = (r, cs)"
      by (cases "olrp_for_log solve beta A B Q R W tol (nat max_iter) p0 []")
    with olrp_for_log_erase [of solve beta A B Q R W tol "nat max_iter" p0 "[]"]
    have "olrp_for solve beta A B Q R W tol (nat max_iter) p0 = r" by simp
    with rc show "(case olrp_for_log solve beta A B Q R W tol (nat max_iter) p0 [] of
                    (Inl e, calls) \<Rightarrow> Inl e
                  | (Inr None, calls) \<Rightarrow>
                      Inl (ValueError (''No convergence: Iteration limit of ''
                                   @ str_int max_iter @ '' reached in OLRP''))
                  | (Inr (Some (f1, p1)), calls) \<Rightarrow> Inr (f1, p1))
        = olrp_value_iteration solve beta A B Q R W tol max_iter p0"
      by (simp add: olrp_value_iteration_def bindE_def split: sum.splits option.splits)
  qed
  show ?thesis
    unfolding olrp_log_def olrp_def Let_def
    by (auto simp: solve_logged_def bindE_def fb [symmetric]
        split: sum.splits option.splits prod.splits)
qed


text \<open>The first pass: its first solve, and what a refusal of that solve leads to.\<close>

lemma olrp_for_log_first:
  "snd (olrp_for_log solve beta A B Q R W tol (Suc n) p0 []) \<noteq> []
   \<and> hd (snd (olrp_for_log solve beta A B Q R W tol (Suc n) p0 []))
        = riccati_system beta A B R W p0"
proof -
  let ?s0 = "riccati_system beta A B R W p0"
  show ?thesis
  proof (cases "solve (fst ?s0) (snd ?s0)")
    case (Inl e)
    then show ?thesis by (simp add: solve_logged_def riccati_system_def)
  next
    case f0: (Inr f0)
    let ?p1 = "bellman_update beta A B Q W p0 f0"
    let ?s1 = "riccati_system beta A B R W ?p1"
    show ?thesis
    proof (cases "solve (fst ?s1) (snd ?s1)")
      case (Inl e)
      with f0 show ?thesis
        by (simp add: solve_logged_def riccati_system_def bellman_update_def Let_def)
    next
      case f1: (Inr f1)
      show ?thesis
      proof (cases "np_max (np_sub f1 f0)")
        case (Inl e)
        with f0 f1 show ?thesis
          by (simp add: solve_logged_def riccati_system_def bellman_update_def Let_def)
      next
        case (Inr dd)
        from olrp_for_log_extends [of solve beta A B Q R W tol n ?p1 "[?s0, ?s1]"] obtain ys where
          "snd (olrp_for_log solve beta A B Q R W tol n ?p1 [?s0, ?s1]) = [?s0, ?s1] @ ys" ..
        with f0 f1 Inr show ?thesis
          by (simp add: solve_logged_def riccati_system_def bellman_update_def Let_def)
      qed
    qed
  qed
qed

lemma olrp_for_log_refused:
  assumes "solve (fst (riccati_system beta A B R W p0)) (snd (riccati_system beta A B R W p0)) = Inl e"
  shows "olrp_for_log solve beta A B Q R W tol (Suc n) p0 []
           = (Inl e, [riccati_system beta A B R W p0])"
  using assms by (simp add: solve_logged_def riccati_system_def)

text \<open>The solves of the loop are an initial part of those of the value iteration.\<close>

lemma olrp_for_log_systems:
  "\<exists>ys rest. snd (olrp_for_log solve beta A B Q R W tol n p0 calls) = calls @ ys
       \<and> value_iteration_systems solve beta A B Q R W n p0 = ys @ rest"
proof (induction n arbitrary: p0 calls)
  case 0
  then show ?case by simp
next
  case (Suc n)
  let ?s0 = "riccati_system beta A B R W p0"
  show ?case
  proof (cases "solve (fst ?s0) (snd ?s0)")
    case (Inl e)
    then have "snd (olrp_for_log solve beta A B Q R W tol (Suc n) p0 calls) = calls @ [?s0]"
      "value_iteration_systems solve beta A B Q R W (Suc n) p0 = [?s0] @ []"
      by (simp_all add: solve_logged_def riccati_system_def)
    then show ?thesis by blast
  next
    case f0: (Inr f0)
    let ?p1 = "bellman_update beta A B Q W p0 f0"
    let ?s1 = "riccati_system beta A B R W ?p1"
    show ?thesis
    proof (cases "solve (fst ?s1) (snd ?s1)")
      case (Inl e)
      with f0 have "snd (olrp_for_log solve beta A B Q R W tol (Suc n) p0 calls) = calls @ [?s0, ?s1]"
        "value_iteration_systems solve beta A B Q R W (Suc n) p0 = [?s0, ?s1] @ []"
        by (simp_all add: solve_logged_def riccati_system_def bellman_update_def Let_def)
      then show ?thesis by blast
    next
      case f1: (Inr f1)
      have v: "value_iteration_systems solve beta A B Q R W (Suc n) p0
                 = [?s0, ?s1] @ value_iteration_systems solve beta A B Q R W n ?p1"
        using f0 f1 by simp
      show ?thesis
      proof (cases "np_max (np_sub f1 f0)")
        case (Inl e)
        with f0 f1 have "snd (olrp_for_log solve beta A B Q R W tol (Suc n) p0 calls)
                           = calls @ [?s0, ?s1]"
          by (simp add: solve_logged_def riccati_system_def bellman_update_def Let_def)
        with v show ?thesis by blast
      next
        case (Inr dd)
        show ?thesis
        proof (cases "dd > tol")
          case True
          with f0 f1 Inr have "snd (olrp_for_log solve beta A B Q R W tol (Suc n) p0 calls)
                           = calls @ [?s0, ?s1]"
            by (simp add: solve_logged_def riccati_system_def bellman_update_def Let_def)
          with v show ?thesis by blast
        next
          case False
          from Suc.IH [of ?p1 "calls @ [?s0, ?s1]"] obtain ys rest where
            ys: "snd (olrp_for_log solve beta A B Q R W tol n ?p1 (calls @ [?s0, ?s1]))
                   = (calls @ [?s0, ?s1]) @ ys"
            and rest: "value_iteration_systems solve beta A B Q R W n ?p1 = ys @ rest"
            by blast
          from f0 f1 Inr False ys
          have "snd (olrp_for_log solve beta A B Q R W tol (Suc n) p0 calls)
                  = calls @ ([?s0, ?s1] @ ys)"
            by (simp add: solve_logged_def riccati_system_def bellman_update_def Let_def)
          moreover from v rest
          have "value_iteration_systems solve beta A B Q R W (Suc n) p0 = ([?s0, ?s1] @ ys) @ rest"
            by simp
          ultimately show ?thesis by blast
        qed
      qed
    qed
  qed
qed

text \<open>
  Two calls that raise the singularity error: \<open>R = diag(1, 0)\<close> in the first branch, and
  \<open>R = 0\<close> with \<open>B = 0\<close> in the second.
\<close>

lemma singular_R_first_branch:
  "olrp_log solve_small eig_diag 1 [[1, 0], [0, 1]] [[1, 0], [0, 1]] [[1, 0], [0, 1]]
        [[1, 0], [0, 0]] None (1 / 1000000) 1000
       = Some (Inl (LinAlgError ''Matrix is singular.''), [([[1, 0], [0, 0]], [[0, 0], [0, 0]])])"
proof -
  have two: "[0..<2] = [0, Suc 0]" by (simp add: upt_rec)
  show ?thesis
    by (simp add: olrp_log_def solve_logged_def eig_diag_def two py_sqrt_def solve_small_def
        np_defs Let_def)
qed

lemma zero_R_zero_B_pass:
  "olrp_for_log solve_small 1 [[1]] [[0]] [[1]] [[0]] [[0]] (1 / 1000000) (Suc n) [[- (1 / 10)]] []
     = (Inl (LinAlgError ''Matrix is singular.''), [([[0]], [[0]])])"
  by (simp add: solve_logged_def solve_small_def np_defs)

lemma zero_R_zero_B:
  "olrp_log solve_small eig_diag 1 [[1]] [[0]] [[1]] [[0]] None (1 / 1000000) 1000
     = Some (Inl (LinAlgError ''Matrix is singular.''), [([[0]], [[0]])])"
proof -
  have "olrp_for_log solve_small 1 [[1]] [[0]] [[1]] [[0]] [[0]] (1 / 1000000) 1000 [[- (1 / 10)]] []
     = (Inl (LinAlgError ''Matrix is singular.''), [([[0]], [[0]])])"
    using zero_R_zero_B_pass [of 999] by simp
  then show ?thesis
    by (simp add: olrp_log_def eig_diag_def np_defs Let_def)
qed

text \<open>
  Claim C6. For every singular \<open>R\<close> (for example the zero matrix), \<^verbatim>\<open>olrp\<close> takes the second
  branch, raises no singularity error from a solve against \<open>R\<close>, and starts that branch from
  \<open>P0 = -0.1\<cdot>I\<close>. This fails at two inputs. First, the test of the program is on the largest
  eigenvalue modulus, so a singular \<open>R\<close> with one large eigenvalue goes to the first branch:
  \<open>R = diag(1, 0)\<close> maps the vector \<open>(0, 1)\<close> to zero, its largest eigenvalue modulus is \<open>1\<close>,
  and the only solve made is \<^verbatim>\<open>solve(R, W.T)\<close> on line 205, which raises. Second, the systems
  of the second branch have the coefficient matrix \<open>R + beta\<cdot>B\<^sup>T\<cdot>P\<cdot>B\<close>, which is \<open>R\<close> itself where
  \<open>B\<^sup>T\<cdot>P\<cdot>B\<close> vanishes: with \<open>R = 0\<close> and \<open>B = 0\<close> the call takes the second branch, and the only
  solve made there has the coefficient \<open>R\<close> and raises the singularity error.
\<close>

theorem olrp_singular_R_raises:
  "np_dot [[1, 0], [0, 0]] [[0], [1]] = [[0], [0]]
   \<and> olrp_log solve_small eig_diag 1 [[1, 0], [0, 1]] [[1, 0], [0, 1]] [[1, 0], [0, 1]]
        [[1, 0], [0, 0]] None (1 / 1000000) 1000
       = Some (Inl (LinAlgError ''Matrix is singular.''), [([[1, 0], [0, 0]], [[0, 0], [0, 0]])])
   \<and> olrp solve_small eig_diag 1 [[1, 0], [0, 1]] [[1, 0], [0, 1]] [[1, 0], [0, 1]]
        [[1, 0], [0, 0]] None (1 / 1000000) 1000
       = Some (Inl (LinAlgError ''Matrix is singular.''))
   \<and> olrp_log solve_small eig_diag 1 [[1]] [[0]] [[1]] [[0]] None (1 / 1000000) 1000
       = Some (Inl (LinAlgError ''Matrix is singular.''), [([[0]], [[0]])])
   \<and> olrp solve_small eig_diag 1 [[1]] [[0]] [[1]] [[0]] None (1 / 1000000) 1000
       = Some (Inl (LinAlgError ''Matrix is singular.''))"
proof -
  have a: "olrp solve_small eig_diag 1 [[1, 0], [0, 1]] [[1, 0], [0, 1]] [[1, 0], [0, 1]]
        [[1, 0], [0, 0]] None (1 / 1000000) 1000
       = Some (Inl (LinAlgError ''Matrix is singular.''))"
    using olrp_log_erase [of solve_small eig_diag 1 "[[1, 0], [0, 1]]" "[[1, 0], [0, 1]]"
        "[[1, 0], [0, 1]]" "[[1, 0], [0, 0]]" None "1 / 1000000" 1000]
    by (simp add: singular_R_first_branch)
  have b: "olrp solve_small eig_diag 1 [[1]] [[0]] [[1]] [[0]] None (1 / 1000000) 1000
       = Some (Inl (LinAlgError ''Matrix is singular.''))"
    using olrp_log_erase [of solve_small eig_diag 1 "[[1]]" "[[0]]" "[[1]]" "[[0]]" None
        "1 / 1000000" 1000]
    by (simp add: zero_R_zero_B)
  have c: "np_dot [[1, 0], [0, 0]] [[0], [1]] = [[0], [0]]" by (simp add: np_defs)
  from a b c singular_R_first_branch zero_R_zero_B show ?thesis by blast
qed

text \<open>
  Claim C6, amended. For every \<open>R\<close> whose largest eigenvalue modulus is at most \<open>1e-5\<close> (for
  example the zero matrix), \<^verbatim>\<open>olrp\<close> takes the second branch and starts it from
  \<open>P0 = -0.1\<cdot>I\<close>, with \<open>I\<close> the identity of order \<^verbatim>\<open>max(A.shape)\<close>. The linear systems it solves
  are an initial part of those of the value iteration from \<open>P0\<close>, each with a coefficient
  matrix \<open>R + beta\<cdot>B\<^sup>T\<cdot>P\<cdot>B\<close> for the current \<open>P\<close>: none when \<^verbatim>\<open>max_iter\<close> is not positive, and
  otherwise first of all the system with the coefficient \<open>R + beta\<cdot>B\<^sup>T\<cdot>P0\<cdot>B\<close> and the right-hand
  side \<open>beta\<cdot>B\<^sup>T\<cdot>P0\<cdot>A + W\<^sup>T\<close>. When the solver refuses that first system its error is the
  outcome of the call, and no other solve is made. Here \<open>calls\<close> is the list of the solves
  made, \<open>W\<close> the cross term after the default, and the result \<open>r\<close> is the same in the model
  without the list.
\<close>

theorem olrp_fallback_branch:
  assumes "eig R = Inr ev" and "np_max1 (map cmod ev) = Inr mx" and "mx \<le> 1 / 10 ^ 5"
    and "W = (case W_arg of None \<Rightarrow> np_zeros (max (nrows A) (ncols A)) (ncols B) | Some w \<Rightarrow> w)"
    and "P_init = np_smul (- (1 / 10)) (np_eye (max (nrows A) (ncols A)))"
  shows "\<exists>r calls.
      olrp_log solve eig beta A B Q R W_arg tol max_iter = Some (r, calls)
    \<and> olrp solve eig beta A B Q R W_arg tol max_iter = Some r
    \<and> (\<exists>rest. value_iteration_systems solve beta A B Q R W (nat max_iter) P_init = calls @ rest)
    \<and> (max_iter \<le> 0 \<longrightarrow> calls = [])
    \<and> (0 < max_iter \<longrightarrow> calls \<noteq> [] \<and> hd calls = riccati_system beta A B R W P_init)
    \<and> (\<forall>e. 0 < max_iter
            \<and> solve (fst (riccati_system beta A B R W P_init)) (snd (riccati_system beta A B R W P_init))
                = Inl e
          \<longrightarrow> r = Inl e \<and> calls = [riccati_system beta A B R W P_init])"
proof -
  obtain r0 cs where rc: "olrp_for_log solve beta A B Q R W tol (nat max_iter) P_init [] = (r0, cs)"
    by (cases "olrp_for_log solve beta A B Q R W tol (nat max_iter) P_init []")
  define r where "r = (case r0 of
        Inl e \<Rightarrow> Inl e
      | Inr None \<Rightarrow> Inl (ValueError (''No convergence: Iteration limit of ''
                                   @ str_int max_iter @ '' reached in OLRP''))
      | Inr (Some fp) \<Rightarrow> Inr fp)"
  have lg: "olrp_log solve eig beta A B Q R W_arg tol max_iter = Some (r, cs)"
    using assms(1,2,3) rc
    by (simp add: olrp_log_def Let_def bindE_def r_def assms(4,5) [symmetric]
        split: sum.splits option.splits prod.splits)
  have pl: "olrp solve eig beta A B Q R W_arg tol max_iter = Some r"
    using olrp_log_erase [of solve eig beta A B Q R W_arg tol max_iter] lg by simp
  have sys: "\<exists>rest. value_iteration_systems solve beta A B Q R W (nat max_iter) P_init = cs @ rest"
    using olrp_for_log_systems [of solve beta A B Q R W tol "nat max_iter" P_init "[]"] rc by simp
  have none: "max_iter \<le> 0 \<longrightarrow> cs = []"
    using rc by auto
  have first: "0 < max_iter \<longrightarrow> cs \<noteq> [] \<and> hd cs = riccati_system beta A B R W P_init"
  proof
    assume "0 < max_iter"
    then obtain n where n: "nat max_iter = Suc n" by (cases "nat max_iter") auto
    from olrp_for_log_first [of solve beta A B Q R W tol n P_init] rc
    show "cs \<noteq> [] \<and> hd cs = riccati_system beta A B R W P_init"
      unfolding n by simp
  qed
  have refused: "\<forall>e. 0 < max_iter
            \<and> solve (fst (riccati_system beta A B R W P_init)) (snd (riccati_system beta A B R W P_init))
                = Inl e
          \<longrightarrow> r = Inl e \<and> cs = [riccati_system beta A B R W P_init]"
  proof (intro allI impI)
    fix e
    assume a: "0 < max_iter
            \<and> solve (fst (riccati_system beta A B R W P_init)) (snd (riccati_system beta A B R W P_init))
                = Inl e"
    then obtain n where n: "nat max_iter = Suc n" by (cases "nat max_iter") auto
    from a have "olrp_for_log solve beta A B Q R W tol (Suc n) P_init []
           = (Inl e, [riccati_system beta A B R W P_init])"
      by (intro olrp_for_log_refused) simp
    with rc show "r = Inl e \<and> cs = [riccati_system beta A B R W P_init]"
      unfolding n by (simp add: r_def)
  qed
  from lg pl sys none first refused show ?thesis by blast
qed

text \<open>
  Two inputs with \<open>R = 0\<close> of order one. With \<open>B = W = 1\<close> the two solves of the first pass have
  the coefficients \<open>-0.1\<close> and \<open>9\<close>, none is \<open>R\<close>, and the call returns. With \<open>B = 0\<close> the first
  system has the coefficient \<open>R\<close>, the solver refuses it, and that error is the outcome.
\<close>

lemma zero_R_pass:
  "olrp_for_log solve_small 1 [[1]] [[1]] [[1]] [[0]] [[1]] (1 / 1000000) (Suc n) [[- (1 / 10)]] []
     = (Inr (Some ([[10 / 9]], [[9]])), [([[- (1 / 10)]], [[9 / 10]]), ([[9]], [[10]])])"
  by (simp add: solve_logged_def solve_small_def np_defs Let_def)

lemma zero_R_returns:
  "olrp_log solve_small eig_diag 1 [[1]] [[1]] [[1]] [[0]] (Some [[1]]) (1 / 1000000) 1000
     = Some (Inr ([[10 / 9]], [[9]]), [([[- (1 / 10)]], [[9 / 10]]), ([[9]], [[10]])])"
proof -
  have "olrp_for_log solve_small 1 [[1]] [[1]] [[1]] [[0]] [[1]] (1 / 1000000) 1000 [[- (1 / 10)]] []
     = (Inr (Some ([[10 / 9]], [[9]])), [([[- (1 / 10)]], [[9 / 10]]), ([[9]], [[10]])])"
    using zero_R_pass [of 999] by simp
  then show ?thesis
    by (simp add: olrp_log_def eig_diag_def np_defs Let_def)
qed

theorem olrp_fallback_branch_witness:
  "olrp_log solve_small eig_diag 1 [[1]] [[1]] [[1]] [[0]] (Some [[1]]) (1 / 1000000) 1000
     = Some (Inr ([[10 / 9]], [[9]]), [([[- (1 / 10)]], [[9 / 10]]), ([[9]], [[10]])])
   \<and> olrp solve_small eig_diag 1 [[1]] [[1]] [[1]] [[0]] (Some [[1]]) (1 / 1000000) 1000
     = Some (Inr ([[10 / 9]], [[9]]))
   \<and> riccati_system 1 [[1]] [[1]] [[0]] [[1]] [[- (1 / 10)]] = ([[- (1 / 10)]], [[9 / 10]])
   \<and> (\<exists>rest. value_iteration_systems solve_small 1 [[1]] [[1]] [[1]] [[0]] [[1]] (nat 1000)
                [[- (1 / 10)]]
              = [([[- (1 / 10)]], [[9 / 10]]), ([[9]], [[10]])] @ rest)
   \<and> olrp solve_small eig_diag 1 [[1]] [[0]] [[1]] [[0]] None (1 / 1000000) 1000
     = Some (Inl (LinAlgError ''Matrix is singular.''))"
proof -
  have e: "eig_diag [[0]] = Inr [0]" by (simp add: eig_diag_def)
  have m: "np_max1 (map cmod [0]) = Inr 0" by (simp add: np_max1_def)
  have g: "(0::real) \<le> 1 / 10 ^ 5" by simp
  have p0: "[[- (1 / 10)]] = np_smul (- (1 / 10)) (np_eye (max (nrows [[1]]) (ncols [[1]])))"
    by (simp add: np_smul_def nrows_def ncols_def)
  have w1: "[[1]] = (case Some [[1]] of
               None \<Rightarrow> np_zeros (max (nrows [[1]]) (ncols [[1]])) (ncols [[1]]) | Some w \<Rightarrow> w)"
    by simp
  have w2: "[[0]] = (case None of
               None \<Rightarrow> np_zeros (max (nrows [[1]]) (ncols [[1]])) (ncols [[0]]) | Some w \<Rightarrow> w)"
    by (simp add: np_zeros_def nrows_def ncols_def)
  have p0': "[[- (1 / 10)]] = np_smul (- (1 / 10)) (np_eye (max (nrows [[1]]) (ncols [[1]])))"
    by (rule p0)
  from olrp_fallback_branch [where eig = eig_diag and R = "[[0]]" and ev = "[0]" and mx = 0
      and solve = solve_small and beta = 1 and A = "[[1]]" and B = "[[1]]" and Q = "[[1]]"
      and W = "[[1]]" and W_arg = "Some [[1]]" and P_init = "[[- (1 / 10)]]"
      and tol = "1 / 1000000" and max_iter = 1000, OF e m g w1 p0]
  obtain r calls where
    lg: "olrp_log solve_small eig_diag 1 [[1]] [[1]] [[1]] [[0]] (Some [[1]]) (1 / 1000000) 1000
           = Some (r, calls)"
    and pl: "olrp solve_small eig_diag 1 [[1]] [[1]] [[1]] [[0]] (Some [[1]]) (1 / 1000000) 1000
           = Some r"
    and sys: "\<exists>rest. value_iteration_systems solve_small 1 [[1]] [[1]] [[1]] [[0]] [[1]] (nat 1000)
                [[- (1 / 10)]] = calls @ rest"
    and first: "0 < (1000::int) \<longrightarrow> calls \<noteq> []
                  \<and> hd calls = riccati_system 1 [[1]] [[1]] [[0]] [[1]] [[- (1 / 10)]]"
    by blast
  from lg have rc: "r = Inr ([[10 / 9]], [[9]])"
    "calls = [([[- (1 / 10)]], [[9 / 10]]), ([[9]], [[10]])]"
    by (simp_all add: zero_R_returns)
  have s0: "riccati_system 1 [[1]] [[0]] [[0]] [[0]] [[- (1 / 10)]] = ([[0]], [[0]])"
    by (simp add: riccati_system_def np_defs)
  have refuse: "0 < (1000::int)
      \<and> solve_small (fst (riccati_system 1 [[1]] [[0]] [[0]] [[0]] [[- (1 / 10)]]))
          (snd (riccati_system 1 [[1]] [[0]] [[0]] [[0]] [[- (1 / 10)]]))
        = Inl (LinAlgError ''Matrix is singular.'')"
    by (simp add: s0 solve_small_def)
  from olrp_fallback_branch [where eig = eig_diag and R = "[[0]]" and ev = "[0]" and mx = 0
      and solve = solve_small and beta = 1 and A = "[[1]]" and B = "[[0]]" and Q = "[[1]]"
      and W = "[[0]]" and W_arg = None and P_init = "[[- (1 / 10)]]"
      and tol = "1 / 1000000" and max_iter = 1000, OF e m g w2 p0']
  obtain r' calls' where
    pl': "olrp solve_small eig_diag 1 [[1]] [[0]] [[1]] [[0]] None (1 / 1000000) 1000 = Some r'"
    and rf: "\<forall>e. 0 < (1000::int)
            \<and> solve_small (fst (riccati_system 1 [[1]] [[0]] [[0]] [[0]] [[- (1 / 10)]]))
                (snd (riccati_system 1 [[1]] [[0]] [[0]] [[0]] [[- (1 / 10)]])) = Inl e
          \<longrightarrow> r' = Inl e \<and> calls' = [riccati_system 1 [[1]] [[0]] [[0]] [[0]] [[- (1 / 10)]]]"
    by blast
  from rf refuse have r': "r' = Inl (LinAlgError ''Matrix is singular.'')" by blast
  from first rc have hd: "riccati_system 1 [[1]] [[1]] [[0]] [[1]] [[- (1 / 10)]]
      = ([[- (1 / 10)]], [[9 / 10]])"
    by simp
  from lg pl sys rc hd pl' r' show ?thesis by simp
qed

end
